theory Spec2Isabelle
  imports Complex_Main "HOL-Library.Multiset" "HOL-Library.Log_Nat"
begin

section \<open>Numbers\<close>

text \<open>
  A JavaScript number: a finite value, an infinity or \<open>NaN\<close>. Finite values are real
  numbers; rounding and the sign of zero are not modelled. The relations are those of the
  language: every comparison with \<open>NaN\<close> is false.
\<close>

datatype jsnum = Fin real | PosInf | NegInf | NaN

fun js_lt :: "jsnum \<Rightarrow> jsnum \<Rightarrow> bool" where
  "js_lt (Fin a) (Fin b) = (a < b)"
| "js_lt NaN _ = False"
| "js_lt _ NaN = False"
| "js_lt PosInf _ = False"
| "js_lt _ PosInf = True"
| "js_lt NegInf (Fin b) = True"
| "js_lt _ NegInf = False"

fun js_eq :: "jsnum \<Rightarrow> jsnum \<Rightarrow> bool" where
  "js_eq NaN _ = False"
| "js_eq _ NaN = False"
| "js_eq a b = (a = b)"

definition js_gt :: "jsnum \<Rightarrow> jsnum \<Rightarrow> bool" where
  "js_gt a b = js_lt b a"

definition js_le :: "jsnum \<Rightarrow> jsnum \<Rightarrow> bool" where
  "js_le a b = (js_lt a b \<or> js_eq a b)"

definition js_ge :: "jsnum \<Rightarrow> jsnum \<Rightarrow> bool" where
  "js_ge a b = (js_lt b a \<or> js_eq a b)"

fun isFinite :: "jsnum \<Rightarrow> bool" where
  "isFinite (Fin a) = True"
| "isFinite _ = False"

text \<open>Truthiness of a number (\<open>0\<close> and \<open>NaN\<close> are falsy), as \<^verbatim>\<open>||\<close> and \<^verbatim>\<open>if\<close> test it.\<close>

fun truthy :: "jsnum \<Rightarrow> bool" where
  "truthy (Fin a) = (a \<noteq> 0)"
| "truthy NaN = False"
| "truthy _ = True"

fun js_neg :: "jsnum \<Rightarrow> jsnum" where
  "js_neg (Fin a) = Fin (- a)"
| "js_neg PosInf = NegInf"
| "js_neg NegInf = PosInf"
| "js_neg NaN = NaN"

fun js_add :: "jsnum \<Rightarrow> jsnum \<Rightarrow> jsnum" where
  "js_add (Fin a) (Fin b) = Fin (a + b)"
| "js_add NaN _ = NaN"
| "js_add _ NaN = NaN"
| "js_add PosInf NegInf = NaN"
| "js_add NegInf PosInf = NaN"
| "js_add PosInf _ = PosInf"
| "js_add _ PosInf = PosInf"
| "js_add NegInf _ = NegInf"
| "js_add _ NegInf = NegInf"

definition js_sub :: "jsnum \<Rightarrow> jsnum \<Rightarrow> jsnum" where
  "js_sub a b = js_add a (js_neg b)"

text \<open>The infinity with the sign of a product or quotient whose factors have signs \<open>s\<close>, \<open>t\<close>.\<close>

definition signed_inf :: "bool \<Rightarrow> bool \<Rightarrow> jsnum" where
  "signed_inf s t = (if s = t then PosInf else NegInf)"

fun js_mul :: "jsnum \<Rightarrow> jsnum \<Rightarrow> jsnum" where
  "js_mul (Fin a) (Fin b) = Fin (a * b)"
| "js_mul NaN _ = NaN"
| "js_mul _ NaN = NaN"
| "js_mul (Fin a) b = (if a = 0 then NaN else signed_inf (0 < a) (b = PosInf))"
| "js_mul a (Fin b) = (if b = 0 then NaN else signed_inf (a = PosInf) (0 < b))"
| "js_mul a b = signed_inf (a = PosInf) (b = PosInf)"

fun js_div :: "jsnum \<Rightarrow> jsnum \<Rightarrow> jsnum" where
  "js_div (Fin a) (Fin b) =
     (if b \<noteq> 0 then Fin (a / b) else if a = 0 then NaN else signed_inf (0 < a) True)"
| "js_div NaN _ = NaN"
| "js_div _ NaN = NaN"
| "js_div (Fin a) _ = Fin 0"
| "js_div a (Fin b) = signed_inf (a = PosInf) (0 \<le> b)"
| "js_div _ _ = NaN"

fun Math_ceil :: "jsnum \<Rightarrow> jsnum" where
  "Math_ceil (Fin a) = Fin (of_int \<lceil>a\<rceil>)"
| "Math_ceil a = a"

fun Math_abs :: "jsnum \<Rightarrow> jsnum" where
  "Math_abs (Fin a) = Fin \<bar>a\<bar>"
| "Math_abs NaN = NaN"
| "Math_abs _ = PosInf"

definition Math_min :: "jsnum \<Rightarrow> jsnum \<Rightarrow> jsnum" where
  "Math_min a b = (if a = NaN \<or> b = NaN then NaN else if js_lt b a then b else a)"

text \<open>
  An optional numeric option is \<open>None\<close> when absent (\<^verbatim>\<open>undefined\<close>). \<^verbatim>\<open>Number(undefined)\<close> is
  \<open>NaN\<close>; \<^verbatim>\<open>x || d\<close> is \<open>d\<close> when \<open>x\<close> is absent or falsy.
\<close>

definition Number :: "jsnum option \<Rightarrow> jsnum" where
  "Number x = (case x of None \<Rightarrow> NaN | Some v \<Rightarrow> v)"

definition js_or :: "jsnum option \<Rightarrow> jsnum \<Rightarrow> jsnum" where
  "js_or x d = (case x of None \<Rightarrow> d | Some v \<Rightarrow> if truthy v then v else d)"

text \<open>
  The conversions the language applies where a number is used as an integer.
  \<open>trunc\<close> drops the fraction. \<open>ToInt32\<close> is the conversion of the operands of \<^verbatim>\<open>>>\<close>: the
  truncated value modulo \<open>2^32\<close>, read as a signed number; \<open>NaN\<close> and the infinities give 0.
  \<open>slice0 xs end\<close> is \<^verbatim>\<open>xs.slice(0, end)\<close>: \<open>end\<close> is truncated, a negative one counts from
  the end of the array. \<open>index_of\<close> gives the array index a number denotes, if it is a
  whole number that is not negative (array lengths stay below \<open>2^32\<close>).
\<close>

definition trunc :: "real \<Rightarrow> int" where
  "trunc r = (if 0 \<le> r then \<lfloor>r\<rfloor> else \<lceil>r\<rceil>)"

fun ToInt32 :: "jsnum \<Rightarrow> int" where
  "ToInt32 (Fin r) = (let m = trunc r mod 2 ^ 32 in if 2 ^ 31 \<le> m then m - 2 ^ 32 else m)"
| "ToInt32 _ = 0"

fun slice0 :: "'a list \<Rightarrow> jsnum \<Rightarrow> 'a list" where
  "slice0 xs (Fin r) =
     (let k = trunc r in
      if k < 0 then take (nat (int (length xs) + k)) xs else take (nat k) xs)"
| "slice0 xs PosInf = xs"
| "slice0 xs _ = []"

fun index_of :: "jsnum \<Rightarrow> nat option" where
  "index_of (Fin r) = (if 0 \<le> r \<and> r = of_int \<lfloor>r\<rfloor> then Some (nat \<lfloor>r\<rfloor>) else None)"
| "index_of _ = None"

section \<open>Errors\<close>

text \<open>
  \<open>MissingInitialStates\<close> is the error \<open>run\<close> throws. \<open>RangeError\<close> is the error of the
  language for an assignment to \<^verbatim>\<open>heap.length\<close> of a number that is no array length.
  \<open>OutOfBounds\<close> marks the places where the source reads an array slot that holds no
  element and hands the \<^verbatim>\<open>undefined\<close> it gets to the comparator or to another function of
  the caller, or stores it, and the places where it writes beside the elements of the
  array. The source goes on there; what it does then depends on what the caller's
  functions make of \<^verbatim>\<open>undefined\<close>, which their types exclude, and is not followed.
  \<open>and_then\<close> passes a result on, or the error.
\<close>

datatype error = MissingInitialStates | RangeError | OutOfBounds

definition and_then :: "error + 'a \<Rightarrow> ('a \<Rightarrow> error + 'b) \<Rightarrow> error + 'b" where
  "and_then r f = (case r of Inl e \<Rightarrow> Inl e | Inr x \<Rightarrow> f x)"

lemma and_then_simps [simp]:
  "and_then (Inl e) f = Inl e"
  "and_then (Inr x) f = f x"
  by (simp_all add: and_then_def)

lemma and_then_cong [fundef_cong]:
  assumes "r = r'" and "\<And>x. r' = Inr x \<Longrightarrow> f x = f' x"
  shows "and_then r f = and_then r' f'"
  using assms by (cases r') (simp_all add: and_then_def)

lemma and_then_Inr:
  "(and_then r f = Inr y) = (\<exists>x. r = Inr x \<and> f x = Inr y)"
  by (cases r) simp_all

lemma and_then_Inl:
  "(and_then r f = Inl e) = (r = Inl e \<or> (\<exists>x. r = Inr x \<and> f x = Inl e))"
  by (cases r) simp_all

section \<open>The bounded priority container (class Beam of beam.ts)\<close>

text \<open>
  The comparator results of the source: \<^verbatim>\<open>enum CMP { LT = -1, EQ = 0, GT = 1 }\<close>. The
  constructor wraps the caller's comparator as \<^verbatim>\<open>(a, b) => Math.sign(compare(a, b))\<close>;
  the caller's comparator is modelled with integer results, so \<open>sign\<close> is total.
\<close>

datatype CMP = LT | EQ | GT

definition sign :: "int \<Rightarrow> CMP" where
  "sign x = (if x < 0 then LT else if x = 0 then EQ else GT)"

text \<open>
  \<^verbatim>\<open>isMinLevel(i) = (Math.log2(i + 1) & 1) === 0\<close>: the bitwise and truncates the
  logarithm to an integer and tests its lowest bit. Indices are natural numbers; the
  logarithm is the real one (the rounding of floating point is not modelled).
\<close>

definition isMinLevel :: "nat \<Rightarrow> bool" where
  "isMinLevel i = even (nat \<lfloor>log 2 (real (i + 1))\<rfloor>)"

lemma isMinLevel_code [code]: "isMinLevel i = odd (floorlog 2 (i + 1))"
  by (simp add: isMinLevel_def floorlog_def)

lemma isMinLevel_0: "isMinLevel 0"
  by (simp add: isMinLevel_def)

text \<open>
  The fields of the class. \<open>limit\<close> and \<open>size\<close> are numbers: the constructor takes any
  number as the limit and may set \<open>size\<close> to it. The index variables of the methods are
  natural numbers; the shifts \<^verbatim>\<open>(i << 1) + 1\<close> and \<^verbatim>\<open>(i - 1) >> 1\<close> are written as arithmetic
  on them.
\<close>

record 'a beam =
  heap :: "'a list"
  bsize :: jsnum
  limit :: jsnum
  compare :: "'a \<Rightarrow> 'a \<Rightarrow> CMP"

text \<open>
  A read \<^verbatim>\<open>heap[i]\<close> whose value goes to the comparator, and a write \<^verbatim>\<open>heap[i] = e\<close>: inside
  the array it overwrites, at the index \<^verbatim>\<open>heap.length\<close> it extends the array by one.
\<close>

definition heap_at :: "'a beam \<Rightarrow> nat \<Rightarrow> error + 'a" where
  "heap_at b i = (if i < length (heap b) then Inr (heap b ! i) else Inl OutOfBounds)"

definition array_set :: "'a list \<Rightarrow> nat \<Rightarrow> 'a \<Rightarrow> error + 'a list" where
  "array_set xs i e =
     (if i < length xs then Inr (xs[i := e])
      else if i = length xs then Inr (xs @ [e])
      else Inl OutOfBounds)"

text \<open>\<^verbatim>\<open>getSmallestChild(i, GT)\<close> returns \<^verbatim>\<open>{ has, m }\<close>, here the pair \<open>(has, m)\<close>.\<close>

definition getSmallestChild :: "'a beam \<Rightarrow> nat \<Rightarrow> CMP \<Rightarrow> error + bool \<times> nat" where
  "getSmallestChild b i gt =
     (let l = 2 * i + 1 in
      if js_ge (Fin (real l)) (bsize b) then Inr (False, l)
      else let r = l + 1 in
        if js_ge (Fin (real r)) (bsize b) then Inr (True, l)
        else and_then (heap_at b l) (\<lambda>hl. and_then (heap_at b r) (\<lambda>hr.
               Inr (True, if compare b hl hr = gt then r else l))))"

text \<open>\<^verbatim>\<open>getSmallestDescendent(i, GT)\<close> returns \<^verbatim>\<open>{ has, m, isgc }\<close>, here \<open>(has, m, isgc)\<close>.\<close>

definition getSmallestDescendent :: "'a beam \<Rightarrow> nat \<Rightarrow> CMP \<Rightarrow> error + bool \<times> nat \<times> bool" where
  "getSmallestDescendent b i gt =
     (let l = 2 * i + 1 in
      if js_ge (Fin (real l)) (bsize b) then Inr (False, l, False)
      else let r = l + 1 in
        if js_ge (Fin (real r)) (bsize b) then Inr (True, l, False)
        else
          and_then (getSmallestChild b l gt) (\<lambda>(hasl, lc).
            if \<not> hasl then
              and_then (heap_at b l) (\<lambda>hl. and_then (heap_at b r) (\<lambda>hr.
                Inr (True, if compare b hl hr = gt then r else l, False)))
            else
              and_then (getSmallestChild b r gt) (\<lambda>(hasr, rc).
                if \<not> hasr then Inr (True, lc, True)
                else and_then (heap_at b lc) (\<lambda>hlc. and_then (heap_at b rc) (\<lambda>hrc.
                  Inr (True, if compare b hlc hrc = gt then rc else lc, True))))))"

text \<open>
  One round of a \<^verbatim>\<open>while (true)\<close> loop over the container: it ends in \<^verbatim>\<open>continue\<close> with a
  new index, or in \<^verbatim>\<open>break\<close>.
\<close>

datatype 'a round = Next "'a beam" nat | Stop "'a beam"

text \<open>
  The body of the loop of \<^verbatim>\<open>trickleDown\<close>; \<open>lt\<close> and \<open>gt\<close> are the roles chosen once from the
  level of the start index. The parent \<open>p\<close> is read after the first swap.
\<close>

definition trickleDown_round :: "CMP \<Rightarrow> CMP \<Rightarrow> 'a beam \<Rightarrow> nat \<Rightarrow> error + 'a round" where
  "trickleDown_round lt gt b i =
     and_then (getSmallestDescendent b i gt) (\<lambda>(has, m, isgc).
       if \<not> has then Inr (Stop b)
       else
         and_then (heap_at b m) (\<lambda>hm. and_then (heap_at b i) (\<lambda>hi.
           if compare b hm hi = lt then
             (let b1 = b\<lparr>heap := (heap b)[i := hm, m := hi]\<rparr> in
              if isgc then
                (let p = (m - 1) div 2 in
                 and_then (heap_at b1 p) (\<lambda>hp.
                   Inr (Next (if compare b hi hp = gt
                              then b1\<lparr>heap := (heap b1)[p := hi, m := hp]\<rparr> else b1) m)))
              else Inr (Stop b1))
           else Inr (Stop b))))"

lemma getSmallestChild_above:
  "getSmallestChild b i gt = Inr (has, m) \<Longrightarrow> i < m"
  by (auto simp: getSmallestChild_def Let_def and_then_Inr split: if_splits)

lemma getSmallestDescendent_above:
  "getSmallestDescendent b i gt = Inr (has, m, g) \<Longrightarrow> i < m"
  by (auto simp: getSmallestDescendent_def Let_def and_then_Inr split: if_splits
           dest!: getSmallestChild_above)

lemma heap_at_Inr: "(heap_at b i = Inr x) = (i < length (heap b) \<and> x = heap b ! i)"
  by (auto simp: heap_at_def)

lemma trickleDown_round_Next:
  assumes "trickleDown_round lt gt b i = Inr (Next b' m)"
  shows "i < m \<and> m < length (heap b) \<and> length (heap b') = length (heap b)"
  using assms
  by (auto simp: trickleDown_round_def Let_def and_then_Inr heap_at_Inr split: if_splits
           dest!: getSmallestDescendent_above)

function trickleDown_loop :: "CMP \<Rightarrow> CMP \<Rightarrow> 'a beam \<Rightarrow> nat \<Rightarrow> error + 'a beam" where
  "trickleDown_loop lt gt b i =
     (case trickleDown_round lt gt b i of
        Inl e \<Rightarrow> Inl e
      | Inr (Stop b') \<Rightarrow> Inr b'
      | Inr (Next b' m) \<Rightarrow> trickleDown_loop lt gt b' m)"
  by pat_completeness auto
termination
  by (relation "measure (\<lambda>(lt, gt, b, i). length (heap b) - i)")
     (auto dest!: trickleDown_round_Next)

definition trickleDown :: "'a beam \<Rightarrow> nat \<Rightarrow> error + 'a beam" where
  "trickleDown b i =
     (if isMinLevel i then trickleDown_loop LT GT b i else trickleDown_loop GT LT b i)"

declare trickleDown_loop.simps [simp del]

text \<open>
  \<^verbatim>\<open>bubbleUp(i)\<close>: one comparison with the parent, which fixes the role \<open>lt\<close>, then the loop
  over grandparents. The source notes that \<open>i\<close> is always positive; at 0 the parent index
  would be \<open>-1\<close>, which is no slot of the array.
\<close>

definition bubbleUp_round :: "CMP \<Rightarrow> 'a beam \<Rightarrow> nat \<Rightarrow> error + 'a round" where
  "bubbleUp_round lt b i =
     (if i < 3 then Inr (Stop b)
      else
        (let gp = ((i - 1) div 2 - 1) div 2 in
         and_then (heap_at b i) (\<lambda>hi. and_then (heap_at b gp) (\<lambda>hp.
           if compare b hi hp = lt
           then Inr (Next (b\<lparr>heap := (heap b)[i := hp, gp := hi]\<rparr>) gp)
           else Inr (Stop b)))))"

lemma bubbleUp_round_Next:
  assumes "bubbleUp_round lt b i = Inr (Next b' m)"
  shows "m < i"
  using assms
  by (auto simp: bubbleUp_round_def Let_def and_then_Inr split: if_splits)

function bubbleUp_loop :: "CMP \<Rightarrow> 'a beam \<Rightarrow> nat \<Rightarrow> error + 'a beam" where
  "bubbleUp_loop lt b i =
     (case bubbleUp_round lt b i of
        Inl e \<Rightarrow> Inl e
      | Inr (Stop b') \<Rightarrow> Inr b'
      | Inr (Next b' m) \<Rightarrow> bubbleUp_loop lt b' m)"
  by pat_completeness auto
termination
  by (relation "measure (\<lambda>(lt, b, i). i)") (auto dest!: bubbleUp_round_Next)

declare bubbleUp_loop.simps [simp del]

definition bubbleUp :: "'a beam \<Rightarrow> nat \<Rightarrow> error + 'a beam" where
  "bubbleUp b i =
     (if i = 0 then Inl OutOfBounds
      else
        (let p = (i - 1) div 2 in
         and_then (heap_at b i) (\<lambda>hi. and_then (heap_at b p) (\<lambda>hp.
           (let cmp = compare b hi hp;
                swapped = b\<lparr>heap := (heap b)[i := hp, p := hi]\<rparr>
            in if isMinLevel i then
                 (if cmp = GT then bubbleUp_loop GT swapped p else bubbleUp_loop LT b i)
               else if cmp = LT then bubbleUp_loop LT swapped p
               else bubbleUp_loop GT b i)))))"

text \<open>
  The accessors \<^verbatim>\<open>get [0]\<close> and \<^verbatim>\<open>get length\<close>. The first returns an element or
  \<^verbatim>\<open>undefined\<close>, here \<open>None\<close>.
\<close>

definition beam_best :: "'a beam \<Rightarrow> 'a option" where
  "beam_best b =
     (if js_gt (bsize b) (Fin 0) then (if heap b = [] then None else Some (heap b ! 0))
      else None)"

definition beam_length :: "'a beam \<Rightarrow> jsnum" where
  "beam_length b = bsize b"

definition maxIndex :: "'a beam \<Rightarrow> error + nat" where
  "maxIndex b =
     (if js_lt (bsize b) (Fin 2) then Inr 0
      else if js_eq (bsize b) (Fin 2) then Inr 1
      else and_then (heap_at b 1) (\<lambda>h1. and_then (heap_at b 2) (\<lambda>h2.
             Inr (if compare b h1 h2 = LT then 2 else 1))))"

text \<open>
  \<open>push\<close>. In the branch \<^verbatim>\<open>this.size < this.limit\<close> the old size is the index written to;
  a size that is no array index makes the write go beside the elements.
\<close>

definition push :: "'a beam \<Rightarrow> 'a \<Rightarrow> error + 'a beam" where
  "push b e =
     (if js_eq (limit b) (Fin 0) then Inr b
      else if js_eq (bsize b) (Fin 0) then
        and_then (array_set (heap b) 0 e) (\<lambda>h. Inr (b\<lparr>heap := h, bsize := Fin 1\<rparr>))
      else if js_lt (bsize b) (limit b) then
        (case index_of (bsize b) of
           None \<Rightarrow> Inl OutOfBounds
         | Some index \<Rightarrow>
             and_then (array_set (heap b) index e) (\<lambda>h.
               bubbleUp (b\<lparr>heap := h, bsize := js_add (bsize b) (Fin 1)\<rparr>) index))
      else if js_eq (limit b) (Fin 1) then
        and_then (heap_at b 0) (\<lambda>h0.
          Inr (if compare b e h0 = LT then b\<lparr>heap := (heap b)[0 := e]\<rparr> else b))
      else
        and_then (maxIndex b) (\<lambda>maxI. and_then (heap_at b maxI) (\<lambda>hm.
          if compare b e hm = LT
          then and_then (trickleDown (b\<lparr>heap := (heap b)[maxI := e]\<rparr>) maxI)
                 (\<lambda>b1. trickleDown b1 0)
          else Inr b)))"

text \<open>
  \<open>pop\<close> returns the removed root, or \<^verbatim>\<open>undefined\<close> (here \<open>None\<close>), together with the
  updated container. \<^verbatim>\<open>heap.length = size\<close> truncates the array when \<open>size\<close> is an array
  length, and throws a \<open>RangeError\<close> otherwise.
\<close>

definition pop :: "'a beam \<Rightarrow> error + 'a option \<times> 'a beam" where
  "pop b =
     (if js_eq (bsize b) (Fin 0) then Inr (None, b)
      else
        (let size' = js_sub (bsize b) (Fin 1);
             ret = (if heap b = [] then None else Some (heap b ! 0))
         in if js_gt size' (Fin 0) then
              (case index_of size' of
                 None \<Rightarrow> Inl RangeError
               | Some n \<Rightarrow>
                   and_then (heap_at b n) (\<lambda>hn.
                     and_then (trickleDown (b\<lparr>heap := take n ((heap b)[0 := hn]),
                                               bsize := size'\<rparr>) 0)
                       (\<lambda>b'. Inr (ret, b'))))
            else Inr (ret, b\<lparr>heap := [], bsize := size'\<rparr>)))"

text \<open>
  The constructor. \<^verbatim>\<open>select\<close> is the selection routine of the package floyd-rivest, which
  is not part of this repository: it is a parameter \<open>sel\<close>, given the array, the rank (the
  limit, whatever number it is) and the comparator and returning the rearranged array.
  \<open>Beam_fill\<close> is the constructor up to its loop, \<open>Beam_constructor\<close> the whole of it. The
  loop \<^verbatim>\<open>for (let i = this.size >> 1; i >= 0; i--) this.trickleDown(i)\<close> visits the indices
  from \<^verbatim>\<open>size >> 1\<close> down to 0.
\<close>

type_synonym 'a selection = "'a list \<Rightarrow> jsnum \<Rightarrow> ('a \<Rightarrow> 'a \<Rightarrow> CMP) \<Rightarrow> 'a list"

definition Beam_fill ::
  "'a selection \<Rightarrow> ('a \<Rightarrow> 'a \<Rightarrow> int) \<Rightarrow> jsnum \<Rightarrow> 'a list \<Rightarrow> 'a beam" where
  "Beam_fill sel cmp cap elements =
     (let c = (\<lambda>a b. sign (cmp a b));
          items = elements
      in if js_gt (Fin (real (length items))) cap
         then \<lparr>heap = slice0 (sel items cap c) cap, bsize = cap, limit = cap, compare = c\<rparr>
         else \<lparr>heap = items, bsize = Fin (real (length items)), limit = cap, compare = c\<rparr>)"

definition Beam_constructor ::
  "'a selection \<Rightarrow> ('a \<Rightarrow> 'a \<Rightarrow> int) \<Rightarrow> jsnum \<Rightarrow> 'a list \<Rightarrow> error + 'a beam" where
  "Beam_constructor sel cmp cap elements =
     (let b0 = Beam_fill sel cmp cap elements
      in fold (\<lambda>i r. and_then r (\<lambda>b. trickleDown b i))
           (rev [0 ..< nat (ToInt32 (bsize b0) div 2 + 1)]) (Inr b0))"

text \<open>
  A sequence of the public operations \<open>push\<close> and \<open>pop\<close>, applied from left to right to
  the container a constructor call gave, as long as no error occurs.
\<close>

datatype 'a beam_op = Push 'a | Pop

fun apply_op :: "'a beam \<Rightarrow> 'a beam_op \<Rightarrow> error + 'a beam" where
  "apply_op b (Push e) = push b e"
| "apply_op b Pop = and_then (pop b) (\<lambda>(r, b'). Inr b')"

definition apply_ops :: "error + 'a beam \<Rightarrow> 'a beam_op list \<Rightarrow> error + 'a beam" where
  "apply_ops r ops = foldl (\<lambda>r x. and_then r (\<lambda>b. apply_op b x)) r ops"

text \<open>The elements the container retains: those of its array, as a multiset.\<close>

definition retained :: "'a beam \<Rightarrow> 'a multiset" where
  "retained b = mset (heap b)"

section \<open>The search driver (class Optimizer of beam.ts)\<close>

subsection \<open>The constructor\<close>

record 'a options =
  opt_isOptimal :: "('a \<Rightarrow> bool) option"
  opt_beamLimit :: "jsnum option"
  opt_turnTime :: "jsnum option"
  opt_totalTime :: "jsnum option"
  opt_maxSavedEquivalents :: "jsnum option"
  opt_equivBailLimit :: "jsnum option"
  opt_utilization :: "jsnum option"
  opt_optimalTimeRatio :: "jsnum option"

text \<open>
  \<open>extend_fn\<close> is the field \<^verbatim>\<open>extend\<close> (the record package reserves that name); it
  returns an iterable, which the loop consumes to its end: here a list.
  \<open>evaluate\<close> has integer results, as the comparator of the container.
\<close>

record 'a optimizer =
  extend_fn :: "'a \<Rightarrow> 'a list"
  check :: "'a \<Rightarrow> bool"
  evaluate :: "'a \<Rightarrow> 'a \<Rightarrow> int"
  isOptimal :: "('a \<Rightarrow> bool) option"
  beamLimit :: jsnum
  turnTime :: jsnum
  totalTime :: jsnum
  maxSavedEquivalents :: jsnum
  equivBailLimit :: jsnum
  turnInterval :: jsnum
  optimalTimeRatio :: jsnum

text \<open>The local \<^verbatim>\<open>utilization\<close> of the constructor.\<close>

definition utilization_of :: "jsnum option \<Rightarrow> jsnum" where
  "utilization_of u = Math_min (Math_abs (js_or u (Fin (1 / 2)))) (Fin 1)"

definition Optimizer_constructor ::
  "('a \<Rightarrow> 'a list) \<Rightarrow> ('a \<Rightarrow> bool) \<Rightarrow> ('a \<Rightarrow> 'a \<Rightarrow> int) \<Rightarrow> 'a options \<Rightarrow> 'a optimizer" where
  "Optimizer_constructor ext chk ev options =
     (let beamLimit' = Number (opt_beamLimit options);
          optTurnTime = Number (opt_turnTime options);
          turnTime' = (if js_gt optTurnTime (Fin 0) \<and> isFinite optTurnTime
                       then optTurnTime else Fin 30);
          optTotalTime = Number (opt_totalTime options);
          utilization = utilization_of (opt_utilization options);
          optimalTimeRatio' = Number (opt_optimalTimeRatio options)
      in \<lparr>extend_fn = ext, check = chk, evaluate = ev,
          isOptimal = opt_isOptimal options,
          beamLimit = (if js_gt beamLimit' (Fin 0) then beamLimit' else PosInf),
          turnTime = turnTime',
          totalTime = (if js_gt optTotalTime (Fin 0) then optTotalTime else PosInf),
          maxSavedEquivalents = js_or (opt_maxSavedEquivalents options) (Fin 0),
          equivBailLimit = (case opt_equivBailLimit options of Some v \<Rightarrow> v | None \<Rightarrow> PosInf),
          turnInterval = js_div turnTime' utilization,
          optimalTimeRatio =
            (if js_ge optimalTimeRatio' (Fin 0) \<and> js_le optimalTimeRatio' (Fin 1)
             then optimalTimeRatio' else Fin (66 / 100))\<rparr>)"

text \<open>The options object with every option absent.\<close>

definition no_options :: "'a options" where
  "no_options =
     \<lparr>opt_isOptimal = None, opt_beamLimit = None, opt_turnTime = None, opt_totalTime = None,
      opt_maxSavedEquivalents = None, opt_equivBailLimit = None, opt_utilization = None,
      opt_optimalTimeRatio = None\<rparr>"

text \<open>
  The clamp of a number into the interval from 0 to 1, as the specification words the
  handling of \<^verbatim>\<open>utilization\<close>; the constructor computes \<open>utilization_of\<close> instead.
\<close>

definition clamp_unit :: "real \<Rightarrow> real" where
  "clamp_unit x = max 0 (min 1 x)"

text \<open>An options object whose numeric options are all outside their ranges.\<close>

definition stray_options :: "'a options" where
  "stray_options =
     \<lparr>opt_isOptimal = None, opt_beamLimit = Some (Fin (- 1)), opt_turnTime = Some PosInf,
      opt_totalTime = Some (Fin 0), opt_maxSavedEquivalents = None, opt_equivBailLimit = None,
      opt_utilization = Some (Fin (- 3 / 10)), opt_optimalTimeRatio = Some (Fin 2)\<rparr>"

subsection \<open>The container of partial solutions\<close>

text \<open>
  \<^verbatim>\<open>SequentialAccess\<close>: the Beam, or a plain array whose \<open>push\<close> appends and whose \<open>pop\<close>
  removes the last element. \<open>length\<close> is a number, the first element and the popped one
  are an element or \<^verbatim>\<open>undefined\<close>.
\<close>

datatype 'a partials = BeamP "'a beam" | ArrayP "'a list"

fun partials_length :: "'a partials \<Rightarrow> jsnum" where
  "partials_length (BeamP b) = beam_length b"
| "partials_length (ArrayP xs) = Fin (real (length xs))"

fun partials_first :: "'a partials \<Rightarrow> 'a option" where
  "partials_first (BeamP b) = beam_best b"
| "partials_first (ArrayP xs) = (if xs = [] then None else Some (xs ! 0))"

fun partials_push :: "'a partials \<Rightarrow> 'a \<Rightarrow> error + 'a partials" where
  "partials_push (BeamP b) e = and_then (push b e) (\<lambda>b'. Inr (BeamP b'))"
| "partials_push (ArrayP xs) e = Inr (ArrayP (xs @ [e]))"

fun partials_pop :: "'a partials \<Rightarrow> error + 'a option \<times> 'a partials" where
  "partials_pop (BeamP b) = and_then (pop b) (\<lambda>(r, b'). Inr (r, BeamP b'))"
| "partials_pop (ArrayP xs) =
     Inr (if xs = [] then (None, ArrayP xs) else (Some (last xs), ArrayP (butlast xs)))"

text \<open>\<^verbatim>\<open>for (const c of cs) partials.push(c)\<close>.\<close>

definition push_all :: "'a partials \<Rightarrow> 'a list \<Rightarrow> error + 'a partials" where
  "push_all p cs = fold (\<lambda>c r. and_then r (\<lambda>q. partials_push q c)) cs (Inr p)"

subsection \<open>The state of one run\<close>

text \<open>
  The variables of the closure of \<open>run\<close>. \<open>representativeBest\<close> is \<^verbatim>\<open>partials[0]\<close> at first,
  an element or \<^verbatim>\<open>undefined\<close>. \<open>equivalents\<close> is a \<^verbatim>\<open>Set\<close>: a list without repetitions, in
  insertion order. \<open>top\<close> merges \<^verbatim>\<open>hasTop\<close> and \<^verbatim>\<open>top\<close>: \<open>Some c\<close> when \<^verbatim>\<open>hasTop\<close> is true.
  Two history variables the source does not keep: \<open>popped\<close>, the candidates returned by
  \<^verbatim>\<open>partials.pop()\<close>, in order; and \<open>improvements\<close>, the candidates that compared strictly
  better than \<open>representativeBest\<close> (those for which the branch \<^verbatim>\<open>cmp < 0\<close> was taken), in
  order.
\<close>

record 'a search =
  partials :: "'a partials"
  representativeBest :: "'a option"
  equivalents :: "'a list"
  activeTime :: real
  equivSize :: nat
  nextLoopTime :: jsnum
  top :: "'a option"
  optimalTime :: jsnum
  bestTime :: real
  popped :: "'a list"
  improvements :: "'a list"

definition set_add :: "'a \<Rightarrow> 'a list \<Rightarrow> 'a list" where
  "set_add x xs = (if x \<in> set xs then xs else xs @ [x])"

text \<open>
  How a piece of the loop body ends: the loop goes on, the turn returns, \<^verbatim>\<open>break iter\<close>, or
  an error.
\<close>

datatype 's flow = Continue 's | Yield 's | Break 's | Throw error

text \<open>The head of the \<^verbatim>\<open>do\<close> body: the pending candidate is expanded into the container.\<close>

definition expand_top :: "'a optimizer \<Rightarrow> 'a search \<Rightarrow> error + 'a search" where
  "expand_top opt st =
     (case top st of
        None \<Rightarrow> Inr st
      | Some t \<Rightarrow>
          and_then (push_all (partials st) (extend_fn opt t))
            (\<lambda>p. Inr (st\<lparr>partials := p, top := None\<rparr>)))"

text \<open>The branch \<^verbatim>\<open>if (now > limit)\<close>.\<close>

definition deadline :: "'a optimizer \<Rightarrow> 'a search \<Rightarrow> real \<Rightarrow> real \<Rightarrow> 'a search flow" where
  "deadline opt st start now =
     (let st1 = st\<lparr>activeTime := activeTime st + (now - start)\<rparr> in
      if js_ge (Fin (activeTime st1)) (totalTime opt) \<or> js_ge (Fin (activeTime st1)) (optimalTime st1)
      then Break st1 else Yield st1)"

text \<open>\<^verbatim>\<open>const candidate = partials.pop() as T\<close>, with the history updated.\<close>

definition take_candidate :: "'a search \<Rightarrow> error + 'a option \<times> 'a search" where
  "take_candidate st =
     and_then (partials_pop (partials st))
       (\<lambda>(r, p'). Inr (r, st\<lparr>partials := p',
                               popped := popped st @ (case r of None \<Rightarrow> [] | Some c \<Rightarrow> [c])\<rparr>))"

definition proven_optimal :: "'a optimizer \<Rightarrow> 'a \<Rightarrow> bool" where
  "proven_optimal opt c = (case isOptimal opt of None \<Rightarrow> False | Some f \<Rightarrow> f c)"

text \<open>
  The scoring of a complete candidate, from \<^verbatim>\<open>const cmp = evaluate(...)\<close> on. The
  comparator is a function of the caller: it is not applied to \<^verbatim>\<open>undefined\<close>.
\<close>

definition score :: "'a optimizer \<Rightarrow> 'a search \<Rightarrow> 'a \<Rightarrow> 'a search flow" where
  "score opt st candidate =
     (case representativeBest st of
        None \<Rightarrow> Throw OutOfBounds
      | Some best \<Rightarrow>
          (let cmp = evaluate opt candidate best in
           if cmp < 0 then
             (let st1 = st\<lparr>equivalents := [candidate], bestTime := activeTime st,
                            improvements := improvements st @ [candidate]\<rparr> in
              if proven_optimal opt candidate then Break st1
              else Continue (st1\<lparr>optimalTime :=
                                    (if truthy (optimalTimeRatio opt)
                                     then js_mul (Fin (activeTime st1))
                                            (js_sub (Fin 2) (optimalTimeRatio opt))
                                     else optimalTime st1),
                                  representativeBest := Some candidate\<rparr>))
           else if cmp = 0 \<and> js_lt (Fin (real (equivSize st))) (maxSavedEquivalents opt) then
             (let st1 = st\<lparr>equivalents := set_add candidate (equivalents st),
                            equivSize := equivSize st + 1\<rparr> in
              if js_gt (Fin (real (equivSize st1))) (equivBailLimit opt) then Break st1
              else Continue st1)
           else Continue st))"

text \<open>
  The body of the inner \<^verbatim>\<open>while\<close> loop after the clock has been read as \<open>now\<close>;
  \<open>turn_limit\<close> is the local \<^verbatim>\<open>limit\<close> of the turn. \<open>check\<close> is a function of the caller: it
  is not applied to \<^verbatim>\<open>undefined\<close>.
\<close>

definition process :: "'a optimizer \<Rightarrow> jsnum \<Rightarrow> real \<Rightarrow> real \<Rightarrow> 'a search \<Rightarrow> 'a search flow" where
  "process opt turn_limit start now st =
     (if js_gt (Fin now) turn_limit then deadline opt st start now
      else
        (case take_candidate st of
           Inl e \<Rightarrow> Throw e
         | Inr (None, st1) \<Rightarrow> Throw OutOfBounds
         | Inr (Some candidate, st1) \<Rightarrow>
             if \<not> check opt candidate then Continue (st1\<lparr>top := Some candidate\<rparr>)
             else score opt st1 candidate))"

text \<open>The start of a turn: \<^verbatim>\<open>nextLoopTime += Math.ceil(...) * turnInterval\<close>.\<close>

definition advance :: "'a optimizer \<Rightarrow> 'a search \<Rightarrow> real \<Rightarrow> 'a search" where
  "advance opt st start =
     st\<lparr>nextLoopTime :=
          js_add (nextLoopTime st)
            (js_mul (Math_ceil (js_div (js_sub (Fin start) (nextLoopTime st)) (turnInterval opt)))
               (turnInterval opt))\<rparr>"

text \<open>
  The clock is the list of the values \<^verbatim>\<open>Date.now()\<close> returns, one per call, in order.
  \<open>loop\<close> is the closure \<^verbatim>\<open>loop\<close>, called once at once and then by the interval timer until
  the promise resolves: when a turn returns, the next call reads the next clock value.
  \<open>iter\<close> is the body of \<^verbatim>\<open>iter: do { ... } while (true)\<close> from its head: the expansion of the
  pending candidate, then the test \<^verbatim>\<open>partials.length > 0\<close> of the \<^verbatim>\<open>while\<close> loop and one round
  of it. \<^verbatim>\<open>continue iter\<close> and the next round of the \<^verbatim>\<open>while\<close> loop both re-enter \<open>iter\<close>; in
  the second case nothing is pending and the expansion does nothing. The result is the
  state at \<^verbatim>\<open>resolve\<close> or an error, or \<open>None\<close> when the clock values run out before either.
\<close>

fun loop :: "'a optimizer \<Rightarrow> 'a search \<Rightarrow> real list \<Rightarrow> (error + 'a search) option"
  and iter :: "'a optimizer \<Rightarrow> real \<Rightarrow> jsnum \<Rightarrow> 'a search \<Rightarrow> real list \<Rightarrow> (error + 'a search) option"
where
  "loop opt st [] = None"
| "loop opt st (start # clock) =
     (if js_lt (Fin start) (nextLoopTime st) then loop opt st clock
      else iter opt start (js_add (Fin start) (turnTime opt)) (advance opt st start) clock)"
| "iter opt start turn_limit st clock =
     (case expand_top opt st of
        Inl e \<Rightarrow> Some (Inl e)
      | Inr st1 \<Rightarrow>
          if \<not> js_gt (partials_length (partials st1)) (Fin 0) then Some (Inr st1)
          else
            (case clock of
               [] \<Rightarrow> None
             | now # clock' \<Rightarrow>
                 (case process opt turn_limit start now st1 of
                    Break s \<Rightarrow> Some (Inr s)
                  | Yield s \<Rightarrow> loop opt s clock'
                  | Continue s \<Rightarrow> iter opt start turn_limit s clock'
                  | Throw e \<Rightarrow> Some (Inl e))))"

declare iter.simps [simp del]

text \<open>
  \<open>run_search\<close> is the executor of the promise \<open>run\<close> returns, with the calls of \<open>loop\<close>
  that follow it: the state at \<^verbatim>\<open>resolve\<close>, or the error thrown. The first clock value is
  the one \<^verbatim>\<open>nextLoopTime\<close> is set to.
\<close>

datatype 'a outcome = Rejected error | Resolved "'a list" real | Astray error

definition initial_partials :: "'a selection \<Rightarrow> 'a optimizer \<Rightarrow> 'a list \<Rightarrow> error + 'a partials" where
  "initial_partials sel opt init =
     (if isOptimal opt \<noteq> None \<or> isFinite (beamLimit opt)
      then and_then (Beam_constructor sel (evaluate opt) (beamLimit opt) init) (\<lambda>b. Inr (BeamP b))
      else Inr (ArrayP init))"

definition initial_search :: "'a optimizer \<Rightarrow> 'a partials \<Rightarrow> real \<Rightarrow> 'a search" where
  "initial_search opt p now =
     \<lparr>partials = p, representativeBest = partials_first p, equivalents = [],
      activeTime = 0, equivSize = 0, nextLoopTime = Fin now, top = None,
      optimalTime = totalTime opt, bestTime = 0, popped = [], improvements = []\<rparr>"

definition run_search ::
  "'a selection \<Rightarrow> 'a optimizer \<Rightarrow> 'a list \<Rightarrow> real list \<Rightarrow> (error + 'a search) option" where
  "run_search sel opt init clock =
     (case initial_partials sel opt init of
        Inl e \<Rightarrow> Some (Inl e)
      | Inr p \<Rightarrow>
          if js_eq (partials_length p) (Fin 0) then Some (Inl MissingInitialStates)
          else
            (case clock of
               [] \<Rightarrow> None
             | now # clock' \<Rightarrow> loop opt (initial_search opt p now) clock'))"

text \<open>
  \<^verbatim>\<open>new Promise(executor)\<close> runs the executor and catches what it throws: the promise is
  rejected with the error \<open>Missing Initial States\<close>, or resolved with the pair
  \<^verbatim>\<open>[equivalents, activeTime]\<close>; \<open>None\<close> is a promise still pending when the clock values
  run out. \<open>Astray\<close> stands for a run that has come to one of the places the error
  \<open>OutOfBounds\<close> marks, or to a \<open>RangeError\<close> (which rejects the promise when the first
  call of \<open>loop\<close> throws it and is uncaught in a later one). \<open>run\<close> itself is
  \<^verbatim>\<open>return new Promise(...)\<close>: the call returns the promise and throws nothing.
\<close>

definition new_Promise :: "(error + 'a search) option \<Rightarrow> 'a outcome option" where
  "new_Promise r =
     map_option
       (\<lambda>x. case x of
               Inl MissingInitialStates \<Rightarrow> Rejected MissingInitialStates
             | Inl e \<Rightarrow> Astray e
             | Inr st \<Rightarrow> Resolved (equivalents st) (activeTime st)) r"

definition run ::
  "'a selection \<Rightarrow> 'a optimizer \<Rightarrow> 'a list \<Rightarrow> real list \<Rightarrow> error + 'a outcome option" where
  "run sel opt init clock = Inr (new_Promise (run_search sel opt init clock))"

section \<open>Predicates and scenarios used in the statements\<close>

subsection \<open>On the container\<close>

text \<open>
  \<open>beam_frame b b'\<close>: \<open>b'\<close> has the size, limit, comparator and array length of \<open>b\<close>.
  \<open>beam_wf b\<close>: \<open>size\<close> is the number of elements of the array.
  \<open>whole_capacity c\<close>: the capacity \<open>c\<close> is a whole number that is not negative, or \<open>Infinity\<close>.
\<close>

definition beam_frame :: "'a beam \<Rightarrow> 'a beam \<Rightarrow> bool" where
  "beam_frame b b' \<longleftrightarrow>
     bsize b' = bsize b \<and> limit b' = limit b \<and> compare b' = compare b \<and>
     length (heap b') = length (heap b)"

definition beam_wf :: "'a beam \<Rightarrow> bool" where
  "beam_wf b \<longleftrightarrow> bsize b = Fin (real (length (heap b)))"

fun whole_capacity :: "jsnum \<Rightarrow> bool" where
  "whole_capacity (Fin a) = (0 \<le> a \<and> a = of_int \<lfloor>a\<rfloor>)"
| "whole_capacity PosInf = True"
| "whole_capacity _ = False"

text \<open>
  What the constructor needs of the selection routine: it rearranges the array.
  \<open>sort_select\<close> is one such routine (it sorts by the comparator, which puts the best
  first, whatever the rank); it stands for floyd-rivest's \<^verbatim>\<open>select\<close> at concrete inputs.
\<close>

definition permuting :: "'a selection \<Rightarrow> bool" where
  "permuting sel \<longleftrightarrow> (\<forall>xs k c. mset (sel xs k c) = mset xs)"

fun insert_by :: "('a \<Rightarrow> 'a \<Rightarrow> CMP) \<Rightarrow> 'a \<Rightarrow> 'a list \<Rightarrow> 'a list" where
  "insert_by c x [] = [x]"
| "insert_by c x (y # ys) = (if c x y = GT then y # insert_by c x ys else x # y # ys)"

definition sort_select :: "'a selection" where
  "sort_select xs k c = foldr (insert_by c) xs []"

text \<open>
  The contract of the caller's comparator (negative: the first argument is more optimal;
  zero: tied): a strict weak ordering.
\<close>

definition strict_weak_order :: "('a \<Rightarrow> 'a \<Rightarrow> int) \<Rightarrow> bool" where
  "strict_weak_order cmp \<longleftrightarrow>
     (\<forall>a b. (cmp a b < 0) = (cmp b a > 0)) \<and>
     (\<forall>a b c. cmp a b < 0 \<longrightarrow> cmp b c < 0 \<longrightarrow> cmp a c < 0) \<and>
     (\<forall>a b c. cmp a b = 0 \<longrightarrow> cmp b c = 0 \<longrightarrow> cmp a c = 0)"

definition numeric_difference :: "int \<Rightarrow> int \<Rightarrow> int" where
  "numeric_difference a b = a - b"

subsection \<open>The counter scenario\<close>

text \<open>
  The first concrete scenario of the specification: the states are the counters 0 to 3,
  \<open>expand(n) = {n + 1}\<close> below 3 and nothing from 3 on, \<open>check(n) = (n == 3)\<close>, the comparator is
  the numeric difference and the beam capacity is 2; every other option is absent.
\<close>

definition counter_extend :: "int \<Rightarrow> int list" where
  "counter_extend n = (if n < 3 then [n + 1] else [])"

definition counter_check :: "int \<Rightarrow> bool" where
  "counter_check n = (n = 3)"

definition counter_optimizer :: "int optimizer" where
  "counter_optimizer =
     Optimizer_constructor counter_extend counter_check numeric_difference
       (no_options\<lparr>opt_beamLimit := Some (Fin 2)\<rparr>)"

subsection \<open>The countdown scenario\<close>




text \<open>The options with an optimality oracle that accepts every state, all else absent.\<close>

definition oracle_options :: "int options" where
  "oracle_options = no_options\<lparr>opt_isOptimal := Some (\<lambda>n. True)\<rparr>"

text \<open>Searches over states that are all complete and have no successors.\<close>

definition flat_optimizer :: "int options \<Rightarrow> int optimizer" where
  "flat_optimizer options =
     Optimizer_constructor (\<lambda>n. []) (\<lambda>n. True) numeric_difference options"

subsection \<open>Predicates on the state of a run\<close>

text \<open>
  \<open>seed_of\<close>: the initial value of \<open>representativeBest\<close>, \<^verbatim>\<open>partials[0]\<close>.
  \<open>best_found\<close>: the representative-best of a state: the last candidate that compared
  strictly better than its predecessor, and the seed as long as there is none. It is the
  value of the variable \<open>representativeBest\<close>, except after the \<^verbatim>\<open>break iter\<close> that follows
  \<^verbatim>\<open>isOptimal(candidate)\<close>, which leaves the loop before the assignment to the variable.
  \<open>improved\<close>: some popped complete candidate compared strictly better than the seed.
  \<open>tally\<close>: what holds of the equivalents set while the loop runs and when it ends.
\<close>

definition seed_of :: "'a selection \<Rightarrow> 'a optimizer \<Rightarrow> 'a list \<Rightarrow> 'a option" where
  "seed_of sel opt init =
     (case initial_partials sel opt init of Inl e \<Rightarrow> None | Inr p \<Rightarrow> partials_first p)"





text \<open>
  \<open>deadline_set\<close>: the adaptive deadline \<open>optimalTime\<close> is the total-time budget until the
  first improvement, and afterwards the time of the last improvement times \<open>2 - r\<close>, for
  the configured ratio \<open>r\<close>.
\<close>

definition deadline_set :: "'a optimizer \<Rightarrow> real \<Rightarrow> 'a search \<Rightarrow> bool" where
  "deadline_set opt r st \<longleftrightarrow>
     (if improvements st = [] then optimalTime st = totalTime opt
      else optimalTime st = Fin (bestTime st * (2 - r)))"

subsection \<open>Exhaustive mode\<close>

text \<open>
  \<open>reachable\<close>: the states the search can come to: the initial states, and the successors
  of reachable states that are not complete (the loop scores a complete state and expands
  an incomplete one).
  \<open>exhaustive_options\<close>: no oracle, no beam limit, no total time, and in addition no
  adaptive deadline (ratio 0), no cap on the ties saved and no limit on their number.
  \<open>exhaustive_counter\<close>: the counter search under these options.
\<close>

inductive reachable :: "'a optimizer \<Rightarrow> 'a list \<Rightarrow> 'a \<Rightarrow> bool" for opt init where
  initial: "x \<in> set init \<Longrightarrow> reachable opt init x"
| successor: "reachable opt init x \<Longrightarrow> \<not> check opt x \<Longrightarrow> y \<in> set (extend_fn opt x)
    \<Longrightarrow> reachable opt init y"

definition exhaustive_options :: "'a options" where
  "exhaustive_options =
     no_options\<lparr>opt_maxSavedEquivalents := Some PosInf, opt_optimalTimeRatio := Some (Fin 0)\<rparr>"

definition exhaustive_counter :: "int optimizer" where
  "exhaustive_counter =
     Optimizer_constructor counter_extend counter_check numeric_difference exhaustive_options"

section \<open>Properties of the container\<close>

subsection \<open>What the restructuring routines leave unchanged\<close>

lemma beam_frame_refl: "beam_frame b b"
  by (simp add: beam_frame_def)

lemma beam_frame_trans: "beam_frame a b \<Longrightarrow> beam_frame b c \<Longrightarrow> beam_frame a c"
  by (simp add: beam_frame_def)

lemma beam_frame_wf: "beam_frame b b' \<Longrightarrow> beam_wf b \<Longrightarrow> beam_wf b'"
  by (simp add: beam_frame_def beam_wf_def)

lemma beam_wf_ge: "beam_wf b \<Longrightarrow> js_ge (Fin (real l)) (bsize b) = (length (heap b) \<le> l)"
  by (auto simp: beam_wf_def js_ge_def)

lemma heap_at_Inl: "(heap_at b i = Inl e) = (length (heap b) \<le> i \<and> e = OutOfBounds)"
  by (auto simp: heap_at_def)

lemma getSmallestChild_Inl:
  assumes "getSmallestChild b i gt = Inl e"
  shows "e = OutOfBounds \<and> \<not> beam_wf b"
proof -
  define l where "l = 2 * i + 1"
  define r where "r = l + 1"
  show ?thesis
    using assms beam_wf_ge[of b l] beam_wf_ge[of b r]
    unfolding getSmallestChild_def Let_def l_def[symmetric] r_def[symmetric]
    by (auto simp: and_then_Inl heap_at_Inl heap_at_Inr split: if_splits)
qed

lemma getSmallestChild_True:
  assumes "getSmallestChild b i gt = Inr (True, m)" and "beam_wf b"
  shows "m < length (heap b)"
proof -
  define l where "l = 2 * i + 1"
  define r where "r = l + 1"
  show ?thesis
    using assms beam_wf_ge[of b l] beam_wf_ge[of b r]
    unfolding getSmallestChild_def Let_def l_def[symmetric] r_def[symmetric]
    by (auto simp: and_then_Inr heap_at_Inr split: if_splits)
qed

lemma getSmallestDescendent_Inl:
  assumes "getSmallestDescendent b i gt = Inl e"
  shows "e = OutOfBounds \<and> \<not> beam_wf b"
proof -
  define l where "l = 2 * i + 1"
  define r where "r = l + 1"
  show ?thesis
    using assms beam_wf_ge[of b l] beam_wf_ge[of b r]
      getSmallestChild_Inl[of b l gt] getSmallestChild_Inl[of b r gt]
      getSmallestChild_True[of b l gt] getSmallestChild_True[of b r gt]
    unfolding getSmallestDescendent_def Let_def l_def[symmetric] r_def[symmetric]
    by (auto simp: and_then_Inl heap_at_Inl heap_at_Inr split: if_splits)
qed

lemma getSmallestDescendent_True:
  assumes "getSmallestDescendent b i gt = Inr (True, m, g)" and "beam_wf b"
  shows "m < length (heap b)"
proof -
  define l where "l = 2 * i + 1"
  define r where "r = l + 1"
  show ?thesis
    using assms beam_wf_ge[of b l] beam_wf_ge[of b r]
      getSmallestChild_True[of b l gt] getSmallestChild_True[of b r gt]
    unfolding getSmallestDescendent_def Let_def l_def[symmetric] r_def[symmetric]
    by (auto simp: and_then_Inr heap_at_Inr split: if_splits)
qed

text \<open>
  \<open>round_ok b r\<close>: a round that started from \<open>b\<close> has kept size, limit, comparator and
  array length, or has run into a slot outside the array, which a container whose
  size is the length of its array excludes.
\<close>

lemma trickleDown_round_Inl:
  assumes "trickleDown_round lt gt b i = Inl e"
  shows "e = OutOfBounds \<and> \<not> beam_wf b"
proof -
  have a: "m < length (heap b)" if "getSmallestDescendent b i gt = Inr (True, m, g)" "beam_wf b" for m g
    using getSmallestDescendent_True[OF that] .
  have c: "i < m" if "getSmallestDescendent b i gt = Inr (True, m, g)" for m g
    using getSmallestDescendent_above[OF that] .
  show ?thesis
    using assms getSmallestDescendent_Inl[of b i gt]
    unfolding trickleDown_round_def Let_def
    by (auto simp: and_then_Inl heap_at_Inl heap_at_Inr split: if_splits dest: a c)
qed

lemma trickleDown_round_frame:
  assumes "trickleDown_round lt gt b i = Inr r"
  shows "case r of Next b' m \<Rightarrow> beam_frame b b' | Stop b' \<Rightarrow> beam_frame b b'"
  using assms unfolding trickleDown_round_def Let_def
  by (auto simp: and_then_Inr heap_at_Inr beam_frame_def split: if_splits round.splits)

lemma trickleDown_loop_result:
  "case trickleDown_loop lt gt b i of
     Inl e \<Rightarrow> e = OutOfBounds \<and> \<not> beam_wf b
   | Inr b' \<Rightarrow> beam_frame b b'"
proof (induction lt gt b i rule: trickleDown_loop.induct)
  case (1 lt gt b i)
  show ?case
  proof (cases "trickleDown_round lt gt b i")
    case (Inl e)
    then show ?thesis
      using trickleDown_round_Inl[OF Inl] by (simp add: trickleDown_loop.simps[of lt gt b i])
  next
    case (Inr r)
    note f = trickleDown_round_frame[OF Inr]
    show ?thesis
    proof (cases r)
      case (Stop b')
      then show ?thesis
        using Inr f by (simp add: trickleDown_loop.simps[of lt gt b i])
    next
      case (Next b' m)
      have fr: "beam_frame b b'"
        using f Next by simp
      have eq: "trickleDown_loop lt gt b i = trickleDown_loop lt gt b' m"
        using Inr Next by (simp add: trickleDown_loop.simps[of lt gt b i])
      show ?thesis
        using "1.IH"[OF Inr Next] fr beam_frame_wf[OF fr] beam_frame_trans[OF fr]
        unfolding eq by (auto split: sum.splits)
    qed
  qed
qed

lemma trickleDown_result:
  "case trickleDown b i of
     Inl e \<Rightarrow> e = OutOfBounds \<and> \<not> beam_wf b
   | Inr b' \<Rightarrow> beam_frame b b'"
  using trickleDown_loop_result[where lt = LT and gt = GT and b = b and i = i]
    trickleDown_loop_result[where lt = GT and gt = LT and b = b and i = i]
  by (simp add: trickleDown_def)

lemma trickleDown_wf:
  assumes "beam_wf b"
  obtains b' where "trickleDown b i = Inr b'" "beam_frame b b'" "beam_wf b'"
  using trickleDown_result[where b = b and i = i] assms beam_frame_wf
  by (cases "trickleDown b i") auto

lemma trickleDown_frame: "trickleDown b i = Inr b' \<Longrightarrow> beam_frame b b'"
  using trickleDown_result[where b = b and i = i] by simp

lemma trickleDown_Inl: "trickleDown b i = Inl e \<Longrightarrow> e = OutOfBounds"
  using trickleDown_result[where b = b and i = i] by simp

lemma bubbleUp_round_Inl:
  assumes "bubbleUp_round lt b i = Inl e"
  shows "e = OutOfBounds \<and> length (heap b) \<le> i"
  using assms unfolding bubbleUp_round_def Let_def
  by (auto simp: and_then_Inl heap_at_Inl heap_at_Inr split: if_splits)

lemma bubbleUp_round_frame:
  assumes "bubbleUp_round lt b i = Inr r"
  shows "case r of Next b' m \<Rightarrow> beam_frame b b' | Stop b' \<Rightarrow> beam_frame b b'"
  using assms unfolding bubbleUp_round_def Let_def
  by (auto simp: and_then_Inr heap_at_Inr beam_frame_def split: if_splits round.splits)

lemma bubbleUp_loop_result:
  "case bubbleUp_loop lt b i of
     Inl e \<Rightarrow> e = OutOfBounds \<and> length (heap b) \<le> i
   | Inr b' \<Rightarrow> beam_frame b b'"
proof (induction lt b i rule: bubbleUp_loop.induct)
  case (1 lt b i)
  show ?case
  proof (cases "bubbleUp_round lt b i")
    case (Inl e)
    then show ?thesis
      using bubbleUp_round_Inl[OF Inl] by (simp add: bubbleUp_loop.simps[of lt b i])
  next
    case (Inr r)
    note f = bubbleUp_round_frame[OF Inr]
    show ?thesis
    proof (cases r)
      case (Stop b')
      then show ?thesis
        using Inr f by (simp add: bubbleUp_loop.simps[of lt b i])
    next
      case (Next b' m)
      have fr: "beam_frame b b'"
        using f Next by simp
      have lt: "m < i"
        using bubbleUp_round_Next Inr Next by blast
      have eq: "bubbleUp_loop lt b i = bubbleUp_loop lt b' m"
        using Inr Next by (simp add: bubbleUp_loop.simps[of lt b i])
      have len: "length (heap b') = length (heap b)"
        using fr by (simp add: beam_frame_def)
      show ?thesis
        using "1.IH"[OF Inr Next] fr lt len beam_frame_trans[OF fr]
        unfolding eq by (auto split: sum.splits)
    qed
  qed
qed

lemma bubbleUp_result:
  "case bubbleUp b i of
     Inl e \<Rightarrow> e = OutOfBounds \<and> (i = 0 \<or> length (heap b) \<le> i)
   | Inr b' \<Rightarrow> beam_frame b b'"
proof (cases "i = 0 \<or> length (heap b) \<le> i")
  case True
  then show ?thesis
    by (auto simp: bubbleUp_def Let_def heap_at_def split: sum.splits)
next
  case False
  define p where "p = (i - 1) div 2"
  define sw where "sw = b\<lparr>heap := (heap b)[i := heap b ! p, p := heap b ! i]\<rparr>"
  have p: "p < length (heap b)" "p < i"
    using False by (auto simp: p_def)
  have fs: "beam_frame b sw"
    by (simp add: beam_frame_def sw_def)
  have len: "length (heap sw) = length (heap b)"
    by (simp add: sw_def)
  have a: "case bubbleUp_loop lt sw p of
     Inl e \<Rightarrow> False | Inr b' \<Rightarrow> beam_frame b b'" for lt
    using bubbleUp_loop_result[where lt = lt and b = sw and i = p] p len beam_frame_trans[OF fs]
    by (auto split: sum.splits)
  have c: "case bubbleUp_loop lt b i of
     Inl e \<Rightarrow> False | Inr b' \<Rightarrow> beam_frame b b'" for lt
    using bubbleUp_loop_result[where lt = lt and b = b and i = i] False
    by (auto split: sum.splits)
  have "bubbleUp b i = bubbleUp_loop GT sw p \<or> bubbleUp b i = bubbleUp_loop LT b i
      \<or> bubbleUp b i = bubbleUp_loop LT sw p \<or> bubbleUp b i = bubbleUp_loop GT b i"
    using False p by (simp add: bubbleUp_def Let_def heap_at_def p_def sw_def)
  then show ?thesis
    using a[of GT] a[of LT] c[of GT] c[of LT] by (auto split: sum.splits)
qed

lemma maxIndex_result:
  "case maxIndex b of
     Inl e \<Rightarrow> e = OutOfBounds \<and> \<not> beam_wf b
   | Inr m \<Rightarrow> m < 3 \<and> (beam_wf b \<longrightarrow> heap b \<noteq> [] \<longrightarrow> m < length (heap b))"
proof -
  have "real n < 2 \<longleftrightarrow> n < 2" for n :: nat
    by linarith
  then show ?thesis
    by (cases "heap b"; cases "tl (heap b)"; cases "tl (tl (heap b))")
       (auto simp: maxIndex_def heap_at_def beam_wf_def split: sum.splits)
qed

lemma bubbleUp_wf:
  assumes "0 < i" and "i < length (heap b)"
  obtains b' where "bubbleUp b i = Inr b'" "beam_frame b b'"
  using bubbleUp_result[where b = b and i = i] assms
  by (cases "bubbleUp b i") auto

lemma index_of_real [simp]: "index_of (Fin (real n)) = Some n"
  by simp

text \<open>
  \<open>push\<close> on a container whose size is the length of its array: no access leaves the
  array, and the size stays or grows by one, the latter only below the limit.
\<close>

lemma push_wf:
  assumes wf: "beam_wf b"
  obtains b' where "push b e = Inr b'" "beam_wf b'" "limit b' = limit b" "compare b' = compare b"
    "bsize b' = bsize b \<or>
     \<not> js_eq (limit b) (Fin 0) \<and> (js_eq (bsize b) (Fin 0) \<or> js_lt (bsize b) (limit b)) \<and>
     bsize b' = js_add (bsize b) (Fin 1)"
proof -
  define n where "n = length (heap b)"
  have size: "bsize b = Fin (real n)"
    using wf by (simp add: beam_wf_def n_def)
  consider (zero) "js_eq (limit b) (Fin 0)"
    | (first) "\<not> js_eq (limit b) (Fin 0)" "n = 0"
    | (room) "\<not> js_eq (limit b) (Fin 0)" "n \<noteq> 0" "js_lt (bsize b) (limit b)"
    | (one) "\<not> js_eq (limit b) (Fin 0)" "n \<noteq> 0" "\<not> js_lt (bsize b) (limit b)"
        "js_eq (limit b) (Fin 1)"
    | (full) "\<not> js_eq (limit b) (Fin 0)" "n \<noteq> 0" "\<not> js_lt (bsize b) (limit b)"
        "\<not> js_eq (limit b) (Fin 1)"
    by blast
  then show ?thesis
  proof cases
    case zero
    then have "push b e = Inr b"
      by (simp add: push_def)
    then show ?thesis
      using that wf by simp
  next
    case first
    have h: "heap b = []"
      using first(2) by (simp add: n_def)
    have "push b e = Inr (b\<lparr>heap := [e], bsize := Fin 1\<rparr>)"
      using first size h by (simp add: push_def array_set_def)
    then show ?thesis
      using that[of "b\<lparr>heap := [e], bsize := Fin 1\<rparr>"] first size
      by (simp add: beam_wf_def)
  next
    case room
    define g where "g = b\<lparr>heap := heap b @ [e], bsize := js_add (bsize b) (Fin 1)\<rparr>"
    have p: "push b e = bubbleUp g n"
      using room size by (simp add: push_def array_set_def n_def g_def)
    have gwf: "beam_wf g"
      by (simp add: g_def beam_wf_def size n_def[symmetric])
    have "0 < n" "n < length (heap g)"
      using room(2) by (simp_all add: g_def n_def)
    then obtain b' where b': "bubbleUp g n = Inr b'" "beam_frame g b'"
      by (rule bubbleUp_wf)
    have "beam_wf b'"
      using beam_frame_wf[OF b'(2) gwf] .
    then show ?thesis
      using that[of b'] p b' room by (simp add: beam_frame_def g_def)
  next
    case one
    have "push b e = Inr (if compare b e (heap b ! 0) = LT then b\<lparr>heap := (heap b)[0 := e]\<rparr> else b)"
      using one size by (simp add: push_def heap_at_def n_def)
    then show ?thesis
      using that[of "if compare b e (heap b ! 0) = LT then b\<lparr>heap := (heap b)[0 := e]\<rparr> else b"] wf
      by (simp add: beam_wf_def)
  next
    case full
    have ne: "heap b \<noteq> []"
      using full(2) by (simp add: n_def)
    obtain m where m: "maxIndex b = Inr m" "m < length (heap b)"
      using maxIndex_result[where b = b] wf ne by (cases "maxIndex b") auto
    define g where "g = b\<lparr>heap := (heap b)[m := e]\<rparr>"
    have gwf: "beam_wf g"
      using wf by (simp add: g_def beam_wf_def)
    obtain b1 where b1: "trickleDown g m = Inr b1" "beam_frame g b1" "beam_wf b1"
      using gwf by (rule trickleDown_wf)
    obtain b2 where b2: "trickleDown b1 0 = Inr b2" "beam_frame b1 b2" "beam_wf b2"
      using b1(3) by (rule trickleDown_wf)
    have "push b e = (if compare b e (heap b ! m) = LT then Inr b2 else Inr b)"
      using full size m b1(1) b2(1) by (simp add: push_def heap_at_def n_def g_def)
    then show ?thesis
      using that[of "if compare b e (heap b ! m) = LT then b2 else b"] wf b1 b2
      by (simp add: beam_frame_def g_def)
  qed
qed

lemma pop_wf:
  assumes wf: "beam_wf b"
  obtains r b' where "pop b = Inr (r, b')" "beam_wf b'" "limit b' = limit b"
    "compare b' = compare b"
    "length (heap b') = length (heap b) - 1"
proof -
  define n where "n = length (heap b)"
  have size: "bsize b = Fin (real n)"
    using wf by (simp add: beam_wf_def n_def)
  consider (empty) "n = 0" | (last) "n = 1" | (more) "1 < n"
    by linarith
  then show ?thesis
  proof cases
    case empty
    then have "pop b = Inr (None, b)"
      using size by (simp add: pop_def)
    then show ?thesis
      using that[of None b] wf empty by (simp add: n_def)
  next
    case last
    have "pop b = Inr (Some (heap b ! 0), b\<lparr>heap := [], bsize := Fin 0\<rparr>)"
      using last size by (auto simp: pop_def Let_def js_sub_def js_gt_def n_def)
    then show ?thesis
      using that[of "Some (heap b ! 0)" "b\<lparr>heap := [], bsize := Fin 0\<rparr>"] last
      by (simp add: beam_wf_def n_def)
  next
    case more
    define k where "k = n - 1"
    have k: "real n - 1 = real k" "0 < k" "k < length (heap b)"
      using more by (auto simp: k_def n_def)
    define g where "g = b\<lparr>heap := take k ((heap b)[0 := heap b ! k]), bsize := Fin (real k)\<rparr>"
    have gwf: "beam_wf g"
      using k by (simp add: g_def beam_wf_def)
    obtain b' where b': "trickleDown g 0 = Inr b'" "beam_frame g b'" "beam_wf b'"
      using gwf by (rule trickleDown_wf)
    have "pop b = Inr (Some (heap b ! 0), b')"
      using more size k b'(1)
      by (auto simp: pop_def Let_def js_sub_def js_gt_def heap_at_def g_def n_def)
    then show ?thesis
      using that[of "Some (heap b ! 0)" b'] b' k
      by (simp add: beam_frame_def g_def k_def n_def)
  qed
qed

lemma fold_and_then_Inl: "fold (\<lambda>i r. and_then r (f i)) js (Inl e) = Inl e"
  by (induction js) simp_all

lemma fold_trickleDown_result:
  "case fold (\<lambda>i r. and_then r (\<lambda>b. trickleDown b i)) js (Inr b) of
     Inl e \<Rightarrow> e = OutOfBounds \<and> \<not> beam_wf b
   | Inr b' \<Rightarrow> beam_frame b b'"
proof (induction js arbitrary: b)
  case Nil
  then show ?case by (simp add: beam_frame_refl)
next
  case (Cons j js)
  show ?case
  proof (cases "trickleDown b j")
    case (Inl e)
    then show ?thesis
      using trickleDown_result[where b = b and i = j] by (simp add: fold_and_then_Inl)
  next
    case (Inr b1)
    have fr: "beam_frame b b1"
      using Inr trickleDown_result[where b = b and i = j] by simp
    show ?thesis
      using Cons.IH[of b1] Inr fr beam_frame_wf[OF fr] beam_frame_trans[OF fr]
      by (auto split: sum.splits)
  qed
qed

lemma Beam_constructor_result:
  "case Beam_constructor sel cmp c xs of
     Inl e \<Rightarrow> e = OutOfBounds \<and> \<not> beam_wf (Beam_fill sel cmp c xs)
   | Inr b \<Rightarrow> beam_frame (Beam_fill sel cmp c xs) b"
  unfolding Beam_constructor_def Let_def by (rule fold_trickleDown_result)

lemma trunc_real [simp]: "trunc (real k) = int k"
  by (simp add: trunc_def)

lemma whole_capacity_cases:
  assumes "whole_capacity c"
  obtains (inf) "c = PosInf" | (fin) k where "c = Fin (real k)"
proof (cases c)
  case (Fin a)
  then have "0 \<le> a" "a = of_int \<lfloor>a\<rfloor>"
    using assms by auto
  then have "a = real (nat \<lfloor>a\<rfloor>)"
    by (metis floor_of_int of_int_0_le_iff of_nat_nat)
  then show ?thesis
    using fin Fin by blast
qed (use assms inf in auto)

lemma beam_wf_Beam_fill:
  assumes "whole_capacity c \<and> permuting sel \<or> \<not> js_gt (Fin (real (length xs))) c"
  shows "beam_wf (Beam_fill sel cmp c xs)"
proof (cases "js_gt (Fin (real (length xs))) c")
  case False
  then show ?thesis
    by (simp add: Beam_fill_def beam_wf_def)
next
  case True
  then have w: "whole_capacity c" and p: "permuting sel"
    using assms by auto
  have len: "length (sel xs k f) = length xs" for k f
    using p mset_eq_length unfolding permuting_def by blast
  from w show ?thesis
  proof (cases rule: whole_capacity_cases)
    case inf
    then show ?thesis using True by (simp add: js_gt_def)
  next
    case (fin k)
    then have "k < length xs"
      using True by (simp add: js_gt_def)
    then show ?thesis
      using True fin by (simp add: Beam_fill_def beam_wf_def Let_def len)
  qed
qed

lemma Beam_constructor_wf:
  assumes "whole_capacity c \<and> permuting sel \<or> \<not> js_gt (Fin (real (length xs))) c"
  obtains b where "Beam_constructor sel cmp c xs = Inr b" "beam_wf b" "limit b = c"
    "compare b = (\<lambda>x y. sign (cmp x y))"
    "bsize b = bsize (Beam_fill sel cmp c xs)"
proof -
  note wf = beam_wf_Beam_fill[OF assms, of cmp]
  obtain b where b: "Beam_constructor sel cmp c xs = Inr b"
    "beam_frame (Beam_fill sel cmp c xs) b"
    using Beam_constructor_result[where sel = sel and cmp = cmp and c = c and xs = xs] wf
    by (cases "Beam_constructor sel cmp c xs") auto
  have "limit (Beam_fill sel cmp c xs) = c"
    "compare (Beam_fill sel cmp c xs) = (\<lambda>x y. sign (cmp x y))"
    by (simp_all add: Beam_fill_def Let_def)
  then show ?thesis
    using that[of b] b beam_frame_wf[OF b(2) wf] by (simp add: beam_frame_def)
qed

lemma mset_insert_by: "mset (insert_by c x ys) = add_mset x (mset ys)"
  by (induction ys) auto

lemma permuting_sort_select: "permuting sort_select"
proof -
  have "mset (foldr (insert_by c) xs []) = mset xs" for c and xs :: "'a list"
    by (induction xs) (auto simp: mset_insert_by)
  then show ?thesis
    by (simp add: permuting_def sort_select_def)
qed

lemma strict_weak_order_numeric_difference: "strict_weak_order numeric_difference"
  by (auto simp: strict_weak_order_def numeric_difference_def)

lemma strict_weak_order_le_trans:
  assumes "strict_weak_order cmp" and "cmp m w \<le> 0" and "cmp e w \<ge> 0"
  shows "cmp e m \<ge> 0"
proof (rule ccontr)
  assume "\<not> cmp e m \<ge> 0"
  then have em: "cmp e m < 0" by simp
  have asym: "(cmp a b < 0) = (cmp b a > 0)" for a b
    using assms(1) by (simp add: strict_weak_order_def)
  have tr: "cmp a b < 0 \<Longrightarrow> cmp b c < 0 \<Longrightarrow> cmp a c < 0" for a b c
    using assms(1) unfolding strict_weak_order_def by blast
  have eq: "cmp a b = 0 \<Longrightarrow> cmp b c = 0 \<Longrightarrow> cmp a c = 0" for a b c
    using assms(1) unfolding strict_weak_order_def by blast
  have sym0: "cmp a b = 0 \<Longrightarrow> cmp b a = 0" for a b
    using asym[of a b] asym[of b a] by linarith
  show False
  proof (cases "cmp m w < 0")
    case True
    then show ?thesis using tr[OF em True] assms(3) by simp
  next
    case False
    then have mw: "cmp m w = 0" using assms(2) by simp
    show ?thesis
    proof (cases "cmp e w = 0")
      case True
      then show ?thesis using eq[OF True sym0[OF mw]] em by simp
    next
      case False
      then have "cmp w e < 0" using assms(3) asym[of w e] by simp
      then have "cmp w m < 0" using tr em by blast
      then show ?thesis using sym0[OF mw] by simp
    qed
  qed
qed

subsection \<open>Sequences of operations\<close>

lemma apply_ops_snoc:
  "apply_ops r (ops @ [x]) = and_then (apply_ops r ops) (\<lambda>b. apply_op b x)"
  by (simp add: apply_ops_def)

lemma grow_within:
  assumes "whole_capacity c" and "\<not> js_eq c (Fin 0)"
    and "n = 0 \<or> js_lt (Fin (real n)) c"
  shows "js_le (js_add (Fin (real n)) (Fin 1)) c"
  using assms(1)
proof (cases rule: whole_capacity_cases)
  case inf
  then show ?thesis by (simp add: js_le_def)
next
  case (fin k)
  then have "k \<noteq> 0" "n = 0 \<or> n < k"
    using assms(2,3) by auto
  then have "real n + 1 \<le> real k"
    by (metis Suc_leI add.commute less_one linorder_neqE_nat not_less_zero of_nat_Suc
        of_nat_le_iff plus_1_eq_Suc)
  then show ?thesis
    using fin by (auto simp: js_le_def)
qed

lemma shrink_within:
  assumes "js_le (Fin (real n)) c"
  shows "js_le (Fin (real (n - 1))) c"
proof (cases c)
  case (Fin a)
  then have "real n \<le> a"
    using assms by (auto simp: js_le_def)
  moreover have "real (n - 1) \<le> real n"
    by simp
  ultimately have "real (n - 1) \<le> a"
    by linarith
  then show ?thesis
    using Fin by (auto simp: js_le_def)
qed (use assms in \<open>auto simp: js_le_def\<close>)

lemma apply_op_within:
  assumes w: "whole_capacity c" and wf: "beam_wf b" and lim: "limit b = c"
    and le: "js_le (bsize b) c"
  obtains b' where "apply_op b x = Inr b'" "beam_wf b'" "limit b' = c"
    "compare b' = compare b" "js_le (bsize b') c"
proof (cases x)
  case (Push e)
  define n where "n = length (heap b)"
  have size: "bsize b = Fin (real n)"
    using wf by (simp add: beam_wf_def n_def)
  obtain b' where b': "push b e = Inr b'" "beam_wf b'" "limit b' = limit b"
    "compare b' = compare b"
    "bsize b' = bsize b \<or>
     \<not> js_eq (limit b) (Fin 0) \<and> (js_eq (bsize b) (Fin 0) \<or> js_lt (bsize b) (limit b)) \<and>
     bsize b' = js_add (bsize b) (Fin 1)"
    using wf by (rule push_wf)
  have "js_le (bsize b') c"
    using b'(5)
  proof
    assume "bsize b' = bsize b"
    then show ?thesis using le by simp
  next
    assume a: "\<not> js_eq (limit b) (Fin 0) \<and> (js_eq (bsize b) (Fin 0) \<or> js_lt (bsize b) (limit b)) \<and>
     bsize b' = js_add (bsize b) (Fin 1)"
    then have n: "n = 0 \<or> js_lt (Fin (real n)) c"
      by (auto simp: size lim)
    have "\<not> js_eq c (Fin 0)"
      using a lim by simp
    then show ?thesis
      using grow_within[OF w _ n] a by (simp add: size lim)
  qed
  then show ?thesis
    using that[of b'] b' Push lim by simp
next
  case Pop
  obtain r b' where b': "pop b = Inr (r, b')" "beam_wf b'" "limit b' = limit b"
    "compare b' = compare b" "length (heap b') = length (heap b) - 1"
    using wf by (rule pop_wf)
  have "js_le (Fin (real (length (heap b) - 1))) c"
    using le wf by (intro shrink_within) (simp add: beam_wf_def)
  then have "js_le (bsize b') c"
    using b'(2,5) by (simp add: beam_wf_def)
  then show ?thesis
    using that[of b'] b' Pop lim by simp
qed

lemma apply_ops_within:
  assumes w: "whole_capacity c" and wf: "beam_wf b" and lim: "limit b = c"
    and le: "js_le (bsize b) c"
  obtains b' where "apply_ops (Inr b) ops = Inr b'" "beam_wf b'" "limit b' = c"
    "compare b' = compare b" "js_le (bsize b') c"
proof -
  have "\<exists>b'. apply_ops (Inr b) ops = Inr b' \<and> beam_wf b' \<and> limit b' = c \<and>
      compare b' = compare b \<and> js_le (bsize b') c"
  proof (induction ops rule: rev_induct)
    case Nil
    then show ?case
      using wf lim le by (simp add: apply_ops_def)
  next
    case (snoc x ops)
    then obtain b1 where b1: "apply_ops (Inr b) ops = Inr b1" "beam_wf b1" "limit b1 = c"
      "compare b1 = compare b" "js_le (bsize b1) c"
      by blast
    obtain b' where "apply_op b1 x = Inr b'" "beam_wf b'" "limit b' = c"
      "compare b' = compare b1" "js_le (bsize b') c"
      using w b1(2,3,5) by (rule apply_op_within)
    then show ?case
      using b1 by (simp add: apply_ops_snoc)
  qed
  then show ?thesis
    using that by blast
qed

lemma Beam_fill_within:
  assumes "whole_capacity c"
  shows "js_le (bsize (Beam_fill sel cmp c xs)) c"
  using assms
proof (cases rule: whole_capacity_cases)
  case inf
  then show ?thesis
    by (simp add: Beam_fill_def js_le_def js_gt_def)
next
  case (fin k)
  then show ?thesis
    by (auto simp: Beam_fill_def Let_def js_le_def js_gt_def)
qed

lemma push_reject:
  assumes swo: "strict_weak_order cmp" and wf: "beam_wf b"
    and cmpb: "compare b = (\<lambda>x y. sign (cmp x y))"
    and full: "js_eq (bsize b) (limit b)"
    and w: "w \<in># retained b"
    and worst: "\<forall>x\<in>#retained b. compare b x w \<noteq> GT"
    and e: "compare b e w \<noteq> LT"
  shows "push b e = Inr b"
proof -
  define n where "n = length (heap b)"
  have size: "bsize b = Fin (real n)"
    using wf by (simp add: beam_wf_def n_def)
  have lim: "limit b = Fin (real n)"
    using full size by (cases "limit b") auto
  have pos: "0 < n"
    using w by (cases "heap b") (auto simp: retained_def n_def)
  have ne: "heap b \<noteq> []"
    using pos by (auto simp: n_def)
  have rej: "compare b e (heap b ! m) \<noteq> LT" if "m < length (heap b)" for m
  proof -
    have "heap b ! m \<in># retained b"
      using that by (simp add: retained_def)
    then have "compare b (heap b ! m) w \<noteq> GT"
      using worst by blast
    then have "cmp (heap b ! m) w \<le> 0"
      by (auto simp: cmpb sign_def split: if_splits)
    moreover have "cmp e w \<ge> 0"
      using e by (auto simp: cmpb sign_def split: if_splits)
    ultimately have "cmp e (heap b ! m) \<ge> 0"
      using strict_weak_order_le_trans[OF swo] by blast
    then show ?thesis
      by (simp add: cmpb sign_def)
  qed
  obtain m where m: "maxIndex b = Inr m" "m < length (heap b)"
    using maxIndex_result[where b = b] wf ne by (cases "maxIndex b") auto
  show ?thesis
    using pos m rej[OF m(2)] rej[of 0]
    by (simp add: push_def size lim heap_at_def n_def)
qed

subsection \<open>The capacity bound\<close>

text \<open>
  Claim C2, as amended. Take a capacity \<open>c\<close> that is \<open>Infinity\<close> or a whole number, not
  negative, a Beam built by the constructor with capacity \<open>c\<close> from any initial elements
  (the selection routine rearranging its array), and any sequence of \<open>push\<close> and \<open>pop\<close>.
  Every operation stays inside the array, and the container then holds at most \<open>c\<close>
  elements, as many as its \<open>length\<close> says. If \<open>c = 0\<close>, a \<open>push\<close> returns the container as
  it was. If the comparator is a strict weak ordering, the container is at capacity, \<open>w\<close>
  is a worst retained element (no retained element compares worse than \<open>w\<close>) and \<open>e\<close> is
  not strictly better than \<open>w\<close>, then \<open>push e\<close> returns the container as it was.
\<close>

theorem beam_capacity_bound:
  assumes "whole_capacity c" and "permuting sel"
  shows "\<exists>b. apply_ops (Beam_constructor sel cmp c xs) ops = Inr b \<and>
           beam_length b = Fin (real (size (retained b))) \<and>
           js_le (Fin (real (size (retained b)))) c \<and>
           (c = Fin 0 \<longrightarrow> push b e = Inr b) \<and>
           (strict_weak_order cmp \<and> js_eq (beam_length b) c \<and> w \<in># retained b \<and>
              (\<forall>x\<in>#retained b. compare b x w \<noteq> GT) \<and> compare b e w \<noteq> LT
            \<longrightarrow> push b e = Inr b)"
proof -
  have a: "whole_capacity c \<and> permuting sel \<or> \<not> js_gt (Fin (real (length xs))) c"
    using assms by simp
  obtain b0 where b0: "Beam_constructor sel cmp c xs = Inr b0" "beam_wf b0" "limit b0 = c"
    "compare b0 = (\<lambda>x y. sign (cmp x y))" "bsize b0 = bsize (Beam_fill sel cmp c xs)"
    using a by (rule Beam_constructor_wf)
  have "js_le (bsize b0) c"
    using Beam_fill_within[OF assms(1)] b0(5) by simp
  with assms(1) b0(2,3) obtain b where b: "apply_ops (Inr b0) ops = Inr b" "beam_wf b"
    "limit b = c" "compare b = compare b0" "js_le (bsize b) c"
    by (rule apply_ops_within)
  have len: "beam_length b = Fin (real (size (retained b)))"
    using b(2) by (simp add: beam_length_def beam_wf_def retained_def)
  have 2: "c = Fin 0 \<longrightarrow> push b e = Inr b"
    using b(3) by (simp add: push_def)
  have 3: "push b e = Inr b"
    if "strict_weak_order cmp \<and> js_eq (beam_length b) c \<and> w \<in># retained b \<and>
        (\<forall>x\<in>#retained b. compare b x w \<noteq> GT) \<and> compare b e w \<noteq> LT"
    using that b b0(4) by (intro push_reject[where cmp = cmp and w = w]) (simp_all add: beam_length_def)
  show ?thesis
    using b(1,5) len 2 3 unfolding b0(1) by (intro exI[of _ b]) (simp add: beam_length_def)
qed

theorem beam_capacity_bound_witness:
  "whole_capacity (Fin 2) \<and> permuting sort_select \<and> strict_weak_order numeric_difference \<and>
   whole_capacity (Fin 0) \<and>
   map_sum id (\<lambda>b. (beam_length b, retained b, map_sum id retained (push b 7)))
     (apply_ops (Beam_constructor sort_select numeric_difference (Fin 0) [3, 1]) [Push 5])
     = Inr (Fin 0, {#}, Inr {#}) \<and>
   map_sum id (\<lambda>b. (beam_length b, retained b, compare b 9 4, map_sum id retained (push b 9)))
     (apply_ops (Beam_constructor sort_select numeric_difference (Fin 2) [3, 1, 2])
        [Pop, Push 5, Push 4])
     = Inr (Fin 2, {#2, 4#}, GT, Inr {#2, 4#})"
proof -
  note h = beam_capacity_bound[where sel = sort_select and cmp = numeric_difference,
      OF _ permuting_sort_select]
  have w: "whole_capacity (Fin 2)" "whole_capacity (Fin 0)"
    by simp_all
  obtain b where b: "apply_ops (Beam_constructor sort_select numeric_difference (Fin 2) [3, 1, 2])
        [Pop, Push 5, Push 4] = Inr b"
    "strict_weak_order numeric_difference \<and> js_eq (beam_length b) (Fin 2) \<and> 4 \<in># retained b \<and>
              (\<forall>x\<in>#retained b. compare b x 4 \<noteq> GT) \<and> compare b 9 4 \<noteq> LT
            \<longrightarrow> push b 9 = Inr b"
    using h[OF w(1), of "[3, 1, 2]" "[Pop, Push 5, Push 4]" 9 4] by blast
  have v: "map_sum id (\<lambda>b. (beam_length b, retained b, compare b 9 4, compare b 2 4, compare b 4 4))
     (apply_ops (Beam_constructor sort_select numeric_difference (Fin 2) [3, 1, 2])
        [Pop, Push 5, Push 4])
     = Inr (Fin 2, {#2, 4#}, GT, LT, EQ)"
    by code_simp
  have v': "beam_length b = Fin 2" "retained b = {#2, 4#}" "compare b 9 4 = GT"
    "compare b 2 4 = LT" "compare b 4 4 = EQ"
    using v unfolding b(1) by simp_all
  have p: "push b 9 = Inr b"
    using b(2) v' strict_weak_order_numeric_difference by simp
  obtain b0 where b0: "apply_ops (Beam_constructor sort_select numeric_difference (Fin 0) [3, 1])
        [Push 5] = Inr b0"
    "beam_length b0 = Fin (real (size (retained b0)))"
    "js_le (Fin (real (size (retained b0)))) (Fin 0)"
    "Fin 0 = Fin 0 \<longrightarrow> push b0 7 = Inr b0"
    using h[OF w(2), of "[3, 1]" "[Push 5]" 7 0] by blast
  have e0: "retained b0 = {#}"
    using b0(3) by (auto simp: js_le_def)
  show ?thesis
    using w permuting_sort_select strict_weak_order_numeric_difference
    unfolding b(1) b0(1) using v' p b0(2,4) e0 by simp
qed

text \<open>
  Claim C2 as stated (for every capacity) fails for the capacity 2.5: \<open>push\<close> appends
  while \<^verbatim>\<open>size < limit\<close>, so the third element goes in at size 2, and the container
  holds three elements.
\<close>

theorem beam_capacity_bound_counterexample:
  "map_sum id (\<lambda>b. (beam_length b, retained b))
     (apply_ops (Beam_constructor sort_select numeric_difference (Fin (5 / 2)) [])
        [Push 1, Push 2, Push 3, Push 4])
     = Inr (Fin 3, {#1, 2, 3#}) \<and>
   \<not> js_le (Fin 3) (Fin (5 / 2))"
  by code_simp

subsection \<open>The root after an extraction\<close>

text \<open>
  Claim C1 (the stored best element is the comparator-minimum of the retained set), at the
  input where the code departs from it: with the comparator \<open>a - b\<close> and capacity 10,
  push 0, 10, 1, 5, 7 and pop once. The container then retains 5, 10, 1, 7 and reports 5 as
  its best element, although 1 compares better. \<open>getSmallestDescendent\<close> returns the
  smaller grandchild as soon as the left child has children, and so never looks at a right
  child that has none.
\<close>

theorem beam_pop_loses_minimum:
  "map_sum id beam_best
     (apply_ops (Beam_constructor sort_select numeric_difference (Fin 10) [])
        [Push 0, Push 10, Push 1, Push 5, Push 7, Pop]) = Inr (Some 5)
   \<and> map_sum id retained
     (apply_ops (Beam_constructor sort_select numeric_difference (Fin 10) [])
        [Push 0, Push 10, Push 1, Push 5, Push 7, Pop]) = Inr {#5, 10, 1, 7#}
   \<and> numeric_difference 1 5 < 0"
  by code_simp

section \<open>Properties of the driver\<close>

subsection \<open>Evaluation at concrete inputs\<close>

lemmas beam_eval = Beam_constructor_def Beam_fill_def trickleDown_def trickleDown_loop.simps
  trickleDown_round_def getSmallestDescendent_def getSmallestChild_def isMinLevel_0
  beam_length_def beam_best_def push_def pop_def bubbleUp_def bubbleUp_loop.simps
  bubbleUp_round_def maxIndex_def array_set_def heap_at_def sign_def trunc_def

lemmas driver_eval = iter.simps expand_top_def push_all_def process_def take_candidate_def
  score_def advance_def deadline_def js_gt_def js_ge_def js_le_def js_sub_def
  proven_optimal_def set_add_def run_def new_Promise_def run_search_def initial_partials_def
  initial_search_def

lemmas constructor_eval = Optimizer_constructor_def no_options_def Number_def js_gt_def
  js_ge_def js_le_def js_or_def utilization_of_def Math_min_def Let_def

lemma counter_optimizer_fields:
  "extend_fn counter_optimizer = counter_extend"
  "check counter_optimizer = counter_check"
  "evaluate counter_optimizer = numeric_difference"
  "isOptimal counter_optimizer = None"
  "beamLimit counter_optimizer = Fin 2"
  "turnTime counter_optimizer = Fin 30"
  "totalTime counter_optimizer = PosInf"
  "maxSavedEquivalents counter_optimizer = Fin 0"
  "equivBailLimit counter_optimizer = PosInf"
  "turnInterval counter_optimizer = Fin 60"
  "optimalTimeRatio counter_optimizer = Fin (66 / 100)"
  by (simp_all add: counter_optimizer_def constructor_eval)

subsection \<open>An invariant rule for the loop\<close>

lemma process_cases:
  assumes "process opt dl start now st = X"
  obtains (overrun) "js_gt (Fin now) dl" "X = deadline opt st start now"
  | (error) e where "\<not> js_gt (Fin now) dl" "X = Throw e"
  | (partial) c st1 where "\<not> js_gt (Fin now) dl" "take_candidate st = Inr (Some c, st1)"
      "\<not> check opt c" "X = Continue (st1\<lparr>top := Some c\<rparr>)"
  | (complete) c st1 where "\<not> js_gt (Fin now) dl" "take_candidate st = Inr (Some c, st1)"
      "check opt c" "X = score opt st1 c"
  using assms
  by (cases "take_candidate st")
     (auto simp: process_def split: if_splits option.splits prod.splits)

lemma top_expand_top: "expand_top opt st = Inr st' \<Longrightarrow> top st' = None"
  by (auto simp: expand_top_def and_then_Inr split: option.splits)

lemma deadline_cases:
  assumes "deadline opt st start now = X"
  obtains (yield) a where "X = Yield (st\<lparr>activeTime := a\<rparr>)"
  | (break) a where "X = Break (st\<lparr>activeTime := a\<rparr>)"
      "js_ge (Fin a) (totalTime opt) \<or> js_ge (Fin a) (optimalTime st)"
  using assms by (auto simp: deadline_def Let_def split: if_splits)

lemma score_not_Yield: "score opt st c \<noteq> Yield s"
  by (simp add: score_def Let_def split: option.splits)

lemma search_rule:
  fixes I Q :: "'a search \<Rightarrow> bool"
  assumes adv: "\<And>st t. I st \<Longrightarrow> I (st\<lparr>nextLoopTime := t\<rparr>)"
    and exp: "\<And>st st'. I st \<Longrightarrow> expand_top opt st = Inr st' \<Longrightarrow> I st'"
    and act: "\<And>st a. I st \<Longrightarrow> I (st\<lparr>activeTime := a\<rparr>)"
    and late: "\<And>st a. I st \<Longrightarrow> top st = None \<Longrightarrow>
        js_ge (Fin a) (totalTime opt) \<or> js_ge (Fin a) (optimalTime st) \<Longrightarrow>
        Q (st\<lparr>activeTime := a\<rparr>)"
    and part: "\<And>st c st1. I st \<Longrightarrow> top st = None \<Longrightarrow>
        js_gt (partials_length (partials st)) (Fin 0) \<Longrightarrow>
        take_candidate st = Inr (Some c, st1) \<Longrightarrow> \<not> check opt c \<Longrightarrow> I (st1\<lparr>top := Some c\<rparr>)"
    and cont: "\<And>st c st1 s. I st \<Longrightarrow> top st = None \<Longrightarrow>
        js_gt (partials_length (partials st)) (Fin 0) \<Longrightarrow>
        take_candidate st = Inr (Some c, st1) \<Longrightarrow> check opt c \<Longrightarrow>
        score opt st1 c = Continue s \<Longrightarrow> I s"
    and brk: "\<And>st c st1 s. I st \<Longrightarrow> top st = None \<Longrightarrow>
        js_gt (partials_length (partials st)) (Fin 0) \<Longrightarrow>
        take_candidate st = Inr (Some c, st1) \<Longrightarrow> check opt c \<Longrightarrow>
        score opt st1 c = Break s \<Longrightarrow> Q s"
    and exh: "\<And>st. I st \<Longrightarrow> top st = None \<Longrightarrow>
        \<not> js_gt (partials_length (partials st)) (Fin 0) \<Longrightarrow> Q st"
  shows "(I st \<longrightarrow> loop opt st clock = Some (Inr r) \<longrightarrow> Q r) \<and>
         (I st \<longrightarrow> iter opt start dl st clock = Some (Inr r) \<longrightarrow> Q r)"
proof (induction clock arbitrary: st start dl r)
  case Nil
  have "Q r" if Ist: "I st" and res: "iter opt start dl st [] = Some (Inr r)"
  proof -
    obtain st1 where st1: "expand_top opt st = Inr st1"
      using res by (cases "expand_top opt st") (auto simp: iter.simps)
    have I1: "I st1" and top1: "top st1 = None"
      using exp[OF Ist st1] top_expand_top[OF st1] by simp_all
    have "\<not> js_gt (partials_length (partials st1)) (Fin 0) \<and> r = st1"
      using res by (auto simp: iter.simps st1 split: if_splits)
    then show ?thesis using exh[OF I1 top1] by simp
  qed
  then show ?case by simp
next
  case (Cons now clock)
  have L: "Q r" if "I st" "loop opt st (now # clock) = Some (Inr r)"
  proof (cases "js_lt (Fin now) (nextLoopTime st)")
    case True
    then show ?thesis using that Cons by simp
  next
    case False
    have "I (advance opt st now)"
      using adv[OF that(1)] by (simp add: advance_def)
    then show ?thesis using that False Cons by simp
  qed
  have T: "Q r" if Ist: "I st" and res: "iter opt start dl st (now # clock) = Some (Inr r)"
  proof -
    obtain st1 where st1: "expand_top opt st = Inr st1"
      using res by (cases "expand_top opt st") (auto simp: iter.simps)
    have I1: "I st1" and top1: "top st1 = None"
      using exp[OF Ist st1] top_expand_top[OF st1] by simp_all
    show ?thesis
    proof (cases "js_gt (partials_length (partials st1)) (Fin 0)")
      case False
      then have "r = st1"
        using res by (simp add: iter.simps st1)
      then show ?thesis using exh[OF I1 top1 False] by simp
    next
      case True
      define X where "X = process opt dl start now st1"
      have r: "(case X of Break s \<Rightarrow> Some (Inr s) | Yield s \<Rightarrow> loop opt s clock
                  | Continue s \<Rightarrow> iter opt start dl s clock | Throw e \<Rightarrow> Some (Inl e))
               = Some (Inr r)"
        using res True by (simp add: iter.simps st1 X_def)
      from X_def[symmetric] show ?thesis
      proof (cases rule: process_cases)
        case overrun
        from overrun(2)[symmetric] show ?thesis
        proof (cases rule: deadline_cases)
          case (yield a)
          then show ?thesis
            using r Cons[of "st1\<lparr>activeTime := a\<rparr>"] act[OF I1, of a] by simp
        next
          case (break a)
          then show ?thesis
            using r late[OF I1 top1, of a] by simp
        qed
      next
        case (error e)
        then show ?thesis using r by simp
      next
        case (partial c st2)
        then show ?thesis
          using r Cons[of "st2\<lparr>top := Some c\<rparr>"] part[OF I1 top1 True] by simp
      next
        case (complete c st2)
        show ?thesis
        proof (cases X)
          case (Continue s)
          then show ?thesis
            using r Cons[of s] cont[OF I1 top1 True complete(2,3)] complete(4) by simp
        next
          case (Yield s)
          then show ?thesis using complete(4) score_not_Yield by metis
        next
          case (Break s)
          then show ?thesis
            using r brk[OF I1 top1 True complete(2,3)] complete(4) by simp
        next
          case (Throw e)
          then show ?thesis using r by simp
        qed
      qed
    qed
  qed
  show ?case using L T by blast
qed

lemma take_candidate_fields:
  assumes "take_candidate st = Inr (Some c, st1)"
  shows "popped st1 = popped st @ [c]" "representativeBest st1 = representativeBest st"
    "equivalents st1 = equivalents st" "equivSize st1 = equivSize st" "top st1 = top st"
    "activeTime st1 = activeTime st" "optimalTime st1 = optimalTime st"
    "bestTime st1 = bestTime st" "nextLoopTime st1 = nextLoopTime st"
    "improvements st1 = improvements st"
  using assms by (auto simp: take_candidate_def and_then_Inr split: prod.splits)

lemma expand_top_fields:
  assumes "expand_top opt st = Inr st'"
  shows "popped st' = popped st" "representativeBest st' = representativeBest st"
    "equivalents st' = equivalents st" "equivSize st' = equivSize st"
    "activeTime st' = activeTime st" "optimalTime st' = optimalTime st"
    "bestTime st' = bestTime st" "nextLoopTime st' = nextLoopTime st"
    "improvements st' = improvements st"
  using assms by (auto simp: expand_top_def and_then_Inr split: option.splits)

lemma score_cases:
  assumes "score opt st c = X"
  obtains (undefined) "representativeBest st = None" "X = Throw OutOfBounds"
  | (optimal) rb where "representativeBest st = Some rb" "evaluate opt c rb < 0"
      "proven_optimal opt c"
      "X = Break (st\<lparr>equivalents := [c], bestTime := activeTime st,
                    improvements := improvements st @ [c]\<rparr>)"
  | (better) rb where "representativeBest st = Some rb" "evaluate opt c rb < 0"
      "\<not> proven_optimal opt c"
      "X = Continue (st\<lparr>equivalents := [c], bestTime := activeTime st,
         improvements := improvements st @ [c],
         optimalTime := (if truthy (optimalTimeRatio opt)
                         then js_mul (Fin (activeTime st)) (js_sub (Fin 2) (optimalTimeRatio opt))
                         else optimalTime st),
         representativeBest := Some c\<rparr>)"
  | (tied) rb where "representativeBest st = Some rb" "evaluate opt c rb = 0"
      "js_lt (Fin (real (equivSize st))) (maxSavedEquivalents opt)"
      "X = Continue (st\<lparr>equivalents := set_add c (equivalents st), equivSize := equivSize st + 1\<rparr>)
       \<or> X = Break (st\<lparr>equivalents := set_add c (equivalents st), equivSize := equivSize st + 1\<rparr>)"
  | (dropped) rb where "representativeBest st = Some rb" "evaluate opt c rb \<ge> 0"
      "X = Continue st"
  using assms by (cases "representativeBest st") (auto simp: score_def Let_def split: if_splits)


lemma run_search_loop:
  assumes "run_search sel opt init clock = Some (Inr st)"
  obtains p now clock' where "initial_partials sel opt init = Inr p" "clock = now # clock'"
    "loop opt (initial_search opt p now) clock' = Some (Inr st)"
    "\<not> js_eq (partials_length p) (Fin 0)"
  using assms
  by (cases "initial_partials sel opt init")
     (auto simp: run_search_def split: if_splits list.splits)

subsection \<open>The tally of equivalents\<close>






subsection \<open>The size and the members of the resolved set\<close>







subsection \<open>Strict improvements\<close>




lemma resolved_state:
  assumes "map_option (map_sum id f) r = Some (Inr y)"
  obtains st where "r = Some (Inr st)" "f st = y"
proof (cases r)
  case None
  then show ?thesis using assms by simp
next
  case (Some x)
  then show ?thesis using assms that by (cases x) auto
qed



subsection \<open>The empty initial state set\<close>

lemma Optimizer_constructor_beamLimit:
  "beamLimit (Optimizer_constructor ext chk ev options) = PosInf \<or>
   (\<exists>r. beamLimit (Optimizer_constructor ext chk ev options) = Fin r \<and> 0 < r)"
  by (cases "Number (opt_beamLimit options)")
     (auto simp: Optimizer_constructor_def Let_def js_gt_def)

lemma Beam_fill_empty:
  assumes "c = PosInf \<or> (\<exists>r. c = Fin r \<and> 0 < r)"
  shows "js_eq (bsize (Beam_fill sel cmp c xs)) (Fin 0) = (xs = [])"
    and "xs = [] \<Longrightarrow> beam_wf (Beam_fill sel cmp c xs)"
  using assms by (auto simp: Beam_fill_def Let_def js_gt_def beam_wf_def)

lemma initial_partials_empty:
  assumes "beamLimit opt = PosInf \<or> (\<exists>r. beamLimit opt = Fin r \<and> 0 < r)"
  shows "case initial_partials sel opt init of
           Inl e \<Rightarrow> e = OutOfBounds \<and> init \<noteq> []
         | Inr p \<Rightarrow> js_eq (partials_length p) (Fin 0) = (init = [])"
proof (cases "isOptimal opt \<noteq> None \<or> isFinite (beamLimit opt)")
  case False
  then show ?thesis
    by (simp add: initial_partials_def)
next
  case True
  note e = Beam_fill_empty[OF assms, where sel = sel and cmp = "evaluate opt" and xs = init]
  show ?thesis
    using True Beam_constructor_result[where sel = sel and cmp = "evaluate opt"
        and c = "beamLimit opt" and xs = init] e
    by (cases "Beam_constructor sel (evaluate opt) (beamLimit opt) init")
       (auto simp: initial_partials_def beam_length_def beam_frame_def)
qed

lemma push_error:
  assumes "push b x = Inl e"
  shows "e = OutOfBounds"
proof -
  have bu: "e = OutOfBounds" if "bubbleUp g i = Inl e" for g i
    using bubbleUp_result[where b = g and i = i] that by simp
  have mi: "e = OutOfBounds" if "maxIndex b = Inl e"
    using maxIndex_result[where b = b] that by simp
  show ?thesis
    using assms unfolding push_def
    by (auto simp: and_then_Inl heap_at_Inl array_set_def
        split: if_splits option.splits dest: bu mi trickleDown_Inl)
qed

lemma pop_error:
  assumes "pop b = Inl e"
  shows "e = OutOfBounds \<or> e = RangeError"
  using assms unfolding pop_def Let_def
  by (auto simp: and_then_Inl heap_at_Inl split: if_splits option.splits dest: trickleDown_Inl)

lemma push_all_error:
  assumes "push_all p cs = Inl e"
  shows "e = OutOfBounds"
proof -
  have "fold (\<lambda>c r. and_then r (\<lambda>q. partials_push q c)) cs (Inr p) = Inl e \<longrightarrow> e = OutOfBounds"
  proof (induction cs arbitrary: p)
    case Nil
    then show ?case by simp
  next
    case (Cons c cs)
    show ?case
    proof (cases "partials_push p c")
      case (Inl e')
      then have "e' = OutOfBounds"
        by (cases p) (auto simp: and_then_Inl dest: push_error)
      then show ?thesis
        using Inl by (simp add: fold_and_then_Inl)
    next
      case (Inr q)
      then show ?thesis
        using Cons.IH[of q] by simp
    qed
  qed
  then show ?thesis
    using assms by (simp add: push_all_def)
qed

lemma process_error:
  assumes "process opt dl start now st = Throw e"
  shows "e = OutOfBounds \<or> e = RangeError"
proof -
  have tc: "e = OutOfBounds \<or> e = RangeError" if "take_candidate st = Inl e"
    using that by (cases "partials st")
      (auto simp: take_candidate_def and_then_Inl split: prod.splits if_splits dest: pop_error)
  have sc: "e = OutOfBounds" if "score opt s c = Throw e" for s c
    using that by (auto simp: score_def Let_def split: option.splits if_splits)
  show ?thesis
    using assms
    by (cases "take_candidate st")
       (auto simp: process_def deadline_def Let_def
        split: if_splits option.splits prod.splits dest: tc sc)
qed

lemma loop_error:
  "(loop opt st clock = Some (Inl e) \<longrightarrow> e = OutOfBounds \<or> e = RangeError) \<and>
   (iter opt start dl st clock = Some (Inl e) \<longrightarrow> e = OutOfBounds \<or> e = RangeError)"
proof (induction clock arbitrary: st start dl)
  case Nil
  have "expand_top opt st = Inl e \<Longrightarrow> e = OutOfBounds"
    by (auto simp: expand_top_def and_then_Inl split: option.splits dest: push_all_error)
  then show ?case
    by (auto simp: iter.simps split: sum.splits if_splits)
next
  case (Cons now clock)
  have ex: "expand_top opt st = Inl e \<Longrightarrow> e = OutOfBounds"
    by (auto simp: expand_top_def and_then_Inl split: option.splits dest: push_all_error)
  have L: "loop opt st (now # clock) = Some (Inl e) \<longrightarrow> e = OutOfBounds \<or> e = RangeError"
    using Cons by simp
  have T: "e = OutOfBounds \<or> e = RangeError"
    if res: "iter opt start dl st (now # clock) = Some (Inl e)"
  proof (cases "expand_top opt st")
    case (Inl e')
    then show ?thesis
      using res ex by (simp add: iter.simps)
  next
    case (Inr st1)
    show ?thesis
    proof (cases "process opt dl start now st1")
      case (Continue s)
      then show ?thesis
        using res Inr Cons[of s] by (auto simp: iter.simps split: if_splits)
    next
      case (Yield s)
      then show ?thesis
        using res Inr Cons[of s] by (auto simp: iter.simps split: if_splits)
    next
      case (Break s)
      then show ?thesis
        using res Inr by (auto simp: iter.simps split: if_splits)
    next
      case (Throw e')
      then show ?thesis
        using res Inr process_error[OF Throw] by (auto simp: iter.simps split: if_splits)
    qed
  qed
  show ?case
    using L T by blast
qed

text \<open>
  Claim C7, as amended. The call of \<open>run\<close> throws nothing: it returns a promise. For an
  optimizer built by the constructor, that promise is rejected with the error
  \<open>Missing Initial States\<close> if and only if the initial state set is empty, whatever the
  clock does, and also on the empty clock, that is before the first reading of the clock,
  which precedes the scheduling of the first turn. The error is thrown in the executor of
  the promise, which ends there: it carries no search state, and \<open>loop\<close> is not entered.
\<close>

theorem run_rejects_iff_empty:
  "(run sel (Optimizer_constructor ext chk ev options) init clock
      = Inr (Some (Rejected MissingInitialStates))) = (init = []) \<and>
   run sel (Optimizer_constructor ext chk ev options) [] []
      = Inr (Some (Rejected MissingInitialStates)) \<and>
   run_search sel (Optimizer_constructor ext chk ev options) [] clock
      = Some (Inl MissingInitialStates) \<and>
   (\<forall>e. run sel (Optimizer_constructor ext chk ev options) init clock \<noteq> Inl e)"
proof -
  define opt where "opt = Optimizer_constructor ext chk ev options"
  have pos: "beamLimit opt = PosInf \<or> (\<exists>r. beamLimit opt = Fin r \<and> 0 < r)"
    unfolding opt_def by (rule Optimizer_constructor_beamLimit)
  note e = initial_partials_empty[OF pos]
  have rs: "(run_search sel opt xs cl = Some (Inl MissingInitialStates)) = (xs = [])" for xs cl
  proof (cases "initial_partials sel opt xs")
    case (Inl err)
    then show ?thesis
      using e[where sel = sel and init = xs] by (auto simp: run_search_def)
  next
    case (Inr p)
    have "loop opt s c \<noteq> Some (Inl MissingInitialStates)" for s c
      using loop_error[of opt s c MissingInitialStates] by blast
    then show ?thesis
      using Inr e[where sel = sel and init = xs] by (auto simp: run_search_def split: list.splits)
  qed
  have r: "(run sel opt xs cl = Inr (Some (Rejected MissingInitialStates))) =
      (run_search sel opt xs cl = Some (Inl MissingInitialStates))" for xs cl
    by (cases "run_search sel opt xs cl")
      (auto simp: run_def new_Promise_def split: sum.splits error.splits)
  show ?thesis
    unfolding opt_def[symmetric] using rs r by (simp add: run_def)
qed

theorem run_rejects_iff_empty_witness:
  "run sort_select counter_optimizer [] [1000, 1000] = Inr (Some (Rejected MissingInitialStates)) \<and>
   run sort_select counter_optimizer [0] [1000, 1000] \<noteq> Inr (Some (Rejected MissingInitialStates)) \<and>
   run sort_select
     (Optimizer_constructor counter_extend counter_check numeric_difference
        (no_options\<lparr>opt_beamLimit := Some (Fin (1 / 2))\<rparr>)) [0] [1000, 1000]
     \<noteq> Inr (Some (Rejected MissingInitialStates)) \<and>
   run sort_select counter_optimizer [] [] = Inr (Some (Rejected MissingInitialStates))"
  using run_rejects_iff_empty[of sort_select counter_extend counter_check numeric_difference
      "no_options\<lparr>opt_beamLimit := Some (Fin 2)\<rparr>" "[]" "[1000, 1000]"]
    run_rejects_iff_empty[of sort_select counter_extend counter_check numeric_difference
      "no_options\<lparr>opt_beamLimit := Some (Fin 2)\<rparr>" "[0]" "[1000, 1000]"]
    run_rejects_iff_empty[of sort_select counter_extend counter_check numeric_difference
      "no_options\<lparr>opt_beamLimit := Some (Fin (1 / 2))\<rparr>" "[0]" "[1000, 1000]"]
  by (simp add: counter_optimizer_def)

text \<open>
  Claim C7 as stated (\<open>run\<close> fails synchronously) fails for the empty initial state set:
  the call of \<open>run\<close> returns, and what it returns is a promise that is rejected.
\<close>

theorem run_rejects_counterexample:
  "run sort_select counter_optimizer [] [] = Inr (Some (Rejected MissingInitialStates)) \<and>
   run sort_select counter_optimizer [] [] \<noteq> Inl MissingInitialStates"
  by (simp add: driver_eval counter_optimizer_fields beam_eval Let_def)

subsection \<open>Complete states hidden by the seed\<close>

lemma exhaustive_counter_fields:
  "extend_fn exhaustive_counter = counter_extend"
  "check exhaustive_counter = counter_check"
  "evaluate exhaustive_counter = numeric_difference"
  "isOptimal exhaustive_counter = None"
  "beamLimit exhaustive_counter = PosInf"
  "turnTime exhaustive_counter = Fin 30"
  "totalTime exhaustive_counter = PosInf"
  "maxSavedEquivalents exhaustive_counter = PosInf"
  "equivBailLimit exhaustive_counter = PosInf"
  "turnInterval exhaustive_counter = Fin 60"
  "optimalTimeRatio exhaustive_counter = Fin 0"
  by (simp_all add: exhaustive_counter_def exhaustive_options_def constructor_eval)

text \<open>
  Claim C3 describes what the counter search is meant to return, and the code departs from
  it. With \<open>expand(n) = {n + 1}\<close> below 3, \<open>check(n) = (n == 3)\<close>, the comparator \<open>a - b\<close>,
  beam capacity 2 and the initial state 0, on a clock that advances by one millisecond at
  every reading, the search pops 0, 1, 2 and 3 and resolves with the empty set and an
  active time of 0. The complete state 3 is found and dropped: \<open>representativeBest\<close> is
  seeded with the incomplete initial state 0, and 3 compares worse than 0. The active time
  is 0 although the turn ran for four milliseconds: time is added only when a turn
  overruns its limit.
\<close>

theorem counter_run_drops_solution:
  "run sort_select counter_optimizer [0] [1000, 1001, 1002, 1003, 1004, 1005]
     = Inr (Some (Resolved [] 0)) \<and>
   map_option (map_sum id popped)
     (run_search sort_select counter_optimizer [0] [1000, 1001, 1002, 1003, 1004, 1005])
     = Some (Inr [0, 1, 2, 3]) \<and>
   seed_of sort_select counter_optimizer [0] = Some 0 \<and>
   check counter_optimizer 3 \<and> \<not> check counter_optimizer 0 \<and>
   0 < evaluate counter_optimizer 3 0"
  by (simp add: driver_eval beam_eval seed_of_def counter_optimizer_fields counter_extend_def
      counter_check_def numeric_difference_def Let_def)

text \<open>
  Claim C4 describes what the exhaustive search is meant to return, and the code departs
  from it. The counter search with no oracle, no beam limit, no total time, no adaptive
  deadline and no cap on the ties, from the initial state 0, pops every reachable state,
  0, 1, 2 and 3, and empties its container within one turn. The only complete state among
  them, 3, is therefore the best complete solution found, and the search resolves with the
  empty set: \<open>representativeBest\<close> is seeded with the incomplete initial state 0, and 3
  compares worse than 0.
\<close>

theorem exhaustive_run_drops_solution:
  "run sort_select exhaustive_counter [0] [1000, 1000, 1000, 1000, 1000, 1000]
     = Inr (Some (Resolved [] 0)) \<and>
   map_option (map_sum id (\<lambda>st. (popped st, partials st, top st)))
     (run_search sort_select exhaustive_counter [0] [1000, 1000, 1000, 1000, 1000, 1000])
     = Some (Inr ([0, 1, 2, 3], ArrayP [], None)) \<and>
   reachable exhaustive_counter [0] 3 \<and>
   check exhaustive_counter 3 \<and> \<not> check exhaustive_counter 0 \<and>
   \<not> check exhaustive_counter 1 \<and> \<not> check exhaustive_counter 2 \<and>
   0 < evaluate exhaustive_counter 3 0"
proof -
  have r0: "reachable exhaustive_counter [0] 0"
    by (rule reachable.initial) simp
  have r1: "reachable exhaustive_counter [0] 1"
    by (rule reachable.successor[OF r0])
      (simp_all add: exhaustive_counter_fields counter_extend_def counter_check_def)
  have r2: "reachable exhaustive_counter [0] 2"
    by (rule reachable.successor[OF r1])
      (simp_all add: exhaustive_counter_fields counter_extend_def counter_check_def)
  have r3: "reachable exhaustive_counter [0] 3"
    by (rule reachable.successor[OF r2])
      (simp_all add: exhaustive_counter_fields counter_extend_def counter_check_def)
  show ?thesis
    using r3
    by (simp add: driver_eval exhaustive_counter_fields counter_extend_def
        counter_check_def numeric_difference_def Let_def)
qed

text \<open>
  Claim C5 describes what the optimality oracle is meant to do, and the code departs from
  it. Every state is complete and has no successors, the oracle accepts every state, the
  comparator is \<open>a - b\<close>, and the initial states are 1 and 2. The first state popped is 1,
  a complete state the oracle accepts. The search does not end there: 1 is also the seed
  of \<open>representativeBest\<close>, it ties with itself, and the oracle is asked only about a
  candidate that compares strictly better. The search goes on to pop and score 2 and
  resolves with the empty set.
\<close>

theorem oracle_run_passes_solution:
  "run sort_select (flat_optimizer oracle_options) [1, 2] [1000, 1000, 1000, 1000]
     = Inr (Some (Resolved [] 0)) \<and>
   map_option (map_sum id popped)
     (run_search sort_select (flat_optimizer oracle_options) [1, 2] [1000, 1000, 1000, 1000])
     = Some (Inr [1, 2]) \<and>
   seed_of sort_select (flat_optimizer oracle_options) [1, 2] = Some 1 \<and>
   check (flat_optimizer oracle_options) 1 \<and>
   proven_optimal (flat_optimizer oracle_options) 1"
  by code_simp

subsection \<open>The adaptive deadline\<close>

lemma score_better:
  assumes "optimalTimeRatio opt = Fin r" and "r \<noteq> 0"
    and "representativeBest s = Some b" and "evaluate opt c b < 0"
    and "\<not> proven_optimal opt c"
  shows "score opt s c =
     Continue (s\<lparr>equivalents := [c], bestTime := activeTime s,
                 improvements := improvements s @ [c],
                 optimalTime := Fin (activeTime s * (2 - r)),
                 representativeBest := Some c\<rparr>)"
  using assms by (simp add: score_def Let_def js_sub_def)

lemma process_in_turn:
  assumes "\<not> js_gt (Fin now) dl"
  shows "map_flow (\<lambda>s. s\<lparr>optimalTime := d'\<rparr>) (process opt dl start now (st\<lparr>optimalTime := d\<rparr>))
       = map_flow (\<lambda>s. s\<lparr>optimalTime := d'\<rparr>) (process opt dl start now st)"
proof (cases "partials_pop (partials st)")
  case (Inl e)
  then show ?thesis
    using assms by (simp add: process_def take_candidate_def)
next
  case (Inr x)
  obtain r p' where x: "x = (r, p')" by (cases x)
  show ?thesis
    using assms Inr x
    by (cases r) (auto simp: process_def take_candidate_def score_def Let_def split: option.splits)
qed

lemma process_in_turn_time:
  assumes "\<not> js_gt (Fin now) dl" and "process opt dl start now st = X"
  shows "(\<forall>s. X \<noteq> Yield s) \<and> (\<forall>s. X = Continue s \<or> X = Break s \<longrightarrow> activeTime s = activeTime st)"
  using assms(2)
proof (cases rule: process_cases)
  case overrun
  then show ?thesis using assms(1) by simp
next
  case (error e)
  then show ?thesis by simp
next
  case (partial c st1)
  then show ?thesis by (auto simp: take_candidate_fields)
next
  case (complete c st1)
  note f = take_candidate_fields[OF complete(2)]
  from complete(4)[symmetric] show ?thesis
    by (cases rule: score_cases) (auto simp: f)
qed

lemma iter_overrun:
  assumes "expand_top opt st = Inr st1" and "js_gt (partials_length (partials st1)) (Fin 0)"
    and "js_gt (Fin now) dl"
  shows "iter opt start dl st (now # clock) =
     (if js_ge (Fin (activeTime st1 + (now - start))) (totalTime opt) \<or>
         js_ge (Fin (activeTime st1 + (now - start))) (optimalTime st1)
      then Some (Inr (st1\<lparr>activeTime := activeTime st1 + (now - start)\<rparr>))
      else loop opt (st1\<lparr>activeTime := activeTime st1 + (now - start)\<rparr>) clock)"
  using assms by (simp add: iter.simps process_def deadline_def Let_def)

lemma iter_in_turn:
  assumes "expand_top opt st = Inr st1" and "js_gt (partials_length (partials st1)) (Fin 0)"
    and "\<not> js_gt (Fin now) dl" and "process opt dl start now st1 = Continue s"
  shows "iter opt start dl st (now # clock) = iter opt start dl s clock"
  using assms by (simp add: iter.simps)

lemma loop_deadline_set:
  assumes r: "optimalTimeRatio opt = Fin r" "r \<noteq> 0"
    and I: "deadline_set opt r st"
    and l: "loop opt st clock = Some (Inr res)"
  shows "deadline_set opt r res \<or>
     improvements res \<noteq> [] \<and> proven_optimal opt (last (improvements res))"
proof -
  let ?I = "deadline_set opt r"
  let ?Q = "\<lambda>s. deadline_set opt r s \<or>
     improvements s \<noteq> [] \<and> proven_optimal opt (last (improvements s))"
  have "(?I st \<longrightarrow> loop opt st clock = Some (Inr res) \<longrightarrow> ?Q res) \<and>
        (?I st \<longrightarrow> iter opt 0 NaN st clock = Some (Inr res) \<longrightarrow> ?Q res)"
  proof (rule search_rule[where I = ?I and Q = ?Q])
    fix st t assume "?I st"
    then show "?I (st\<lparr>nextLoopTime := t\<rparr>)" by (simp add: deadline_set_def)
  next
    fix st st' assume I: "?I st" and e: "expand_top opt st = Inr st'"
    from I show "?I st'" by (simp add: deadline_set_def expand_top_fields[OF e])
  next
    fix st a assume "?I st"
    then show "?I (st\<lparr>activeTime := a\<rparr>)" by (simp add: deadline_set_def)
  next
    fix st a assume "?I st"
    then show "?Q (st\<lparr>activeTime := a\<rparr>)" by (simp add: deadline_set_def)
  next
    fix st c st1
    assume I: "?I st" and tc: "take_candidate st = Inr (Some c, st1)"
    from I show "?I (st1\<lparr>top := Some c\<rparr>)"
      by (simp add: deadline_set_def take_candidate_fields[OF tc])
  next
    fix st c st1 s
    assume I: "?I st" and tc: "take_candidate st = Inr (Some c, st1)"
      and sc: "score opt st1 c = Continue s"
    note f = take_candidate_fields[OF tc]
    from sc show "?I s"
    proof (cases rule: score_cases)
      case (better rb)
      then show ?thesis using r by (simp add: deadline_set_def js_sub_def)
    next
      case (tied rb)
      then show ?thesis using I by (simp add: deadline_set_def f)
    next
      case (dropped rb)
      then show ?thesis using I by (simp add: deadline_set_def f)
    qed simp_all
  next
    fix st c st1 s
    assume I: "?I st" and tc: "take_candidate st = Inr (Some c, st1)"
      and sc: "score opt st1 c = Break s"
    note f = take_candidate_fields[OF tc]
    from sc show "?Q s"
    proof (cases rule: score_cases)
      case (optimal rb)
      then show ?thesis by simp
    next
      case (tied rb)
      then show ?thesis using I by (simp add: deadline_set_def f)
    qed simp_all
  next
    fix st assume "?I st"
    then show "?Q st" by simp
  qed
  then show ?thesis using I l by blast
qed

text \<open>
  Claim C9, as amended. When \<open>optimalTimeRatio\<close> is configured strictly greater than 0,
  say \<open>r\<close>:

  \<^item> a candidate that compares strictly better than representative-best and is not accepted
    by the optimality oracle sets the adaptive deadline to \<open>activeTime * (2 - r)\<close>, and
    becomes representative-best and the only equivalent;
  \<^item> when the search resolves, the deadline is the total time if there was no improvement,
    and otherwise the active time of the last improvement times \<open>2 - r\<close>, unless the oracle
    accepted that improvement;
  \<^item> when the clock, read before a candidate is taken, is past the limit of the turn, the
    time since the start of the turn is added to the active time, and the search resolves
    with the equivalents as they are if the active time has reached the total time or the
    deadline, and otherwise returns until the next turn;
  \<^item> when the clock is not past the limit of the turn, the candidate is processed, and the
    outcome does not depend on the deadline: the deadline is not tested, the active time
    does not change, the turn does not return, and the search goes on with the next
    candidate unless the scoring ended it.
\<close>

theorem adaptive_deadline:
  assumes "optimalTimeRatio opt = Fin r" and "0 < r"
  shows
    "(representativeBest s = Some b \<and> evaluate opt c b < 0 \<and> \<not> proven_optimal opt c \<longrightarrow>
        score opt s c =
          Continue (s\<lparr>equivalents := [c], bestTime := activeTime s,
                      improvements := improvements s @ [c],
                      optimalTime := Fin (activeTime s * (2 - r)),
                      representativeBest := Some c\<rparr>)) \<and>
     (run_search sel opt init clock = Some (Inr res) \<longrightarrow>
        deadline_set opt r res \<or>
        improvements res \<noteq> [] \<and> proven_optimal opt (last (improvements res))) \<and>
     (expand_top opt st = Inr st1 \<and> js_gt (partials_length (partials st1)) (Fin 0) \<and>
      js_gt (Fin now) turn_limit \<longrightarrow>
        iter opt start turn_limit st (now # rest) =
          (if js_ge (Fin (activeTime st1 + (now - start))) (totalTime opt) \<or>
              js_ge (Fin (activeTime st1 + (now - start))) (optimalTime st1)
           then Some (Inr (st1\<lparr>activeTime := activeTime st1 + (now - start)\<rparr>))
           else loop opt (st1\<lparr>activeTime := activeTime st1 + (now - start)\<rparr>) rest)) \<and>
     (\<not> js_gt (Fin now) turn_limit \<longrightarrow>
        map_flow (\<lambda>s. s\<lparr>optimalTime := d'\<rparr>)
            (process opt turn_limit start now (st1\<lparr>optimalTime := d\<rparr>))
          = map_flow (\<lambda>s. s\<lparr>optimalTime := d'\<rparr>) (process opt turn_limit start now st1) \<and>
        (\<forall>s'. process opt turn_limit start now st1 \<noteq> Yield s') \<and>
        (\<forall>s'. process opt turn_limit start now st1 = Continue s' \<or>
              process opt turn_limit start now st1 = Break s' \<longrightarrow>
              activeTime s' = activeTime st1) \<and>
        (\<forall>s'. expand_top opt st = Inr st1 \<and> js_gt (partials_length (partials st1)) (Fin 0) \<and>
              process opt turn_limit start now st1 = Continue s' \<longrightarrow>
              iter opt start turn_limit st (now # rest) = iter opt start turn_limit s' rest))"
proof -
  have r0: "r \<noteq> 0" using assms(2) by simp
  have a: "representativeBest s = Some b \<and> evaluate opt c b < 0 \<and> \<not> proven_optimal opt c \<longrightarrow>
        score opt s c =
          Continue (s\<lparr>equivalents := [c], bestTime := activeTime s,
                      improvements := improvements s @ [c],
                      optimalTime := Fin (activeTime s * (2 - r)),
                      representativeBest := Some c\<rparr>)"
    using score_better[OF assms(1) r0] by blast
  have b: "deadline_set opt r res \<or>
        improvements res \<noteq> [] \<and> proven_optimal opt (last (improvements res))"
    if rs: "run_search sel opt init clock = Some (Inr res)"
  proof -
    from rs obtain p t0 clock' where
      l: "loop opt (initial_search opt p t0) clock' = Some (Inr res)"
      by (rule run_search_loop)
    have "deadline_set opt r (initial_search opt p t0)"
      by (simp add: deadline_set_def initial_search_def)
    then show ?thesis
      using l by (rule loop_deadline_set[OF assms(1) r0])
  qed
  have c: "expand_top opt st = Inr st1 \<and> js_gt (partials_length (partials st1)) (Fin 0) \<and>
      js_gt (Fin now) turn_limit \<longrightarrow>
        iter opt start turn_limit st (now # rest) =
          (if js_ge (Fin (activeTime st1 + (now - start))) (totalTime opt) \<or>
              js_ge (Fin (activeTime st1 + (now - start))) (optimalTime st1)
           then Some (Inr (st1\<lparr>activeTime := activeTime st1 + (now - start)\<rparr>))
           else loop opt (st1\<lparr>activeTime := activeTime st1 + (now - start)\<rparr>) rest)"
    using iter_overrun[of opt st st1 now turn_limit start rest] by blast
  have d: "map_flow (\<lambda>s. s\<lparr>optimalTime := d'\<rparr>)
            (process opt turn_limit start now (st1\<lparr>optimalTime := d\<rparr>))
          = map_flow (\<lambda>s. s\<lparr>optimalTime := d'\<rparr>) (process opt turn_limit start now st1) \<and>
        (\<forall>s'. process opt turn_limit start now st1 \<noteq> Yield s') \<and>
        (\<forall>s'. process opt turn_limit start now st1 = Continue s' \<or>
              process opt turn_limit start now st1 = Break s' \<longrightarrow>
              activeTime s' = activeTime st1) \<and>
        (\<forall>s'. expand_top opt st = Inr st1 \<and> js_gt (partials_length (partials st1)) (Fin 0) \<and>
              process opt turn_limit start now st1 = Continue s' \<longrightarrow>
              iter opt start turn_limit st (now # rest) = iter opt start turn_limit s' rest)"
    if n: "\<not> js_gt (Fin now) turn_limit"
    using process_in_turn[OF n, of d' opt start d st1]
      process_in_turn_time[OF n refl, of opt start st1]
      iter_in_turn[of opt st st1 now turn_limit start _ rest] n
    by blast
  show ?thesis
    using a b c d by blast
qed

lemma flat_fields:
  "extend_fn (flat_optimizer no_options) = (\<lambda>n. [])"
  "check (flat_optimizer no_options) = (\<lambda>n. True)"
  "evaluate (flat_optimizer no_options) = numeric_difference"
  "isOptimal (flat_optimizer no_options) = None"
  "beamLimit (flat_optimizer no_options) = PosInf"
  "turnTime (flat_optimizer no_options) = Fin 30"
  "totalTime (flat_optimizer no_options) = PosInf"
  "maxSavedEquivalents (flat_optimizer no_options) = Fin 0"
  "equivBailLimit (flat_optimizer no_options) = PosInf"
  "turnInterval (flat_optimizer no_options) = Fin 60"
  "optimalTimeRatio (flat_optimizer no_options) = Fin (66 / 100)"
  by (simp_all add: flat_optimizer_def constructor_eval)

theorem adaptive_deadline_witness:
  "optimalTimeRatio (flat_optimizer no_options) = Fin (66 / 100) \<and>
   map_option (map_sum id (\<lambda>st. (equivalents st, popped st, improvements st, bestTime st,
       activeTime st, optimalTime st)))
     (run_search sort_select (flat_optimizer no_options) [9, 1, 2]
        [1000, 1000, 1040, 1060, 1060, 1100])
     = Some (Inr ([2], [2], [2], 40, 80, Fin (40 * (2 - 66 / 100)))) \<and>
   js_ge (Fin 80) (Fin (40 * (2 - 66 / 100))) \<and>
   score (flat_optimizer no_options)
     (initial_search (flat_optimizer no_options) (ArrayP [9, 1]) 1000\<lparr>activeTime := 40\<rparr>) 2
     = Continue (initial_search (flat_optimizer no_options) (ArrayP [9, 1]) 1000
         \<lparr>activeTime := 40, equivalents := [2], bestTime := 40, improvements := [2],
          optimalTime := Fin (40 * (2 - 66 / 100)), representativeBest := Some 2\<rparr>) \<and>
   iter (flat_optimizer no_options) 1060 (Fin 1090)
     (initial_search (flat_optimizer no_options) (ArrayP [9, 1]) 1000
         \<lparr>activeTime := 40, optimalTime := Fin (40 * (2 - 66 / 100))\<rparr>) [1100]
     = Some (Inr (initial_search (flat_optimizer no_options) (ArrayP [9, 1]) 1000
         \<lparr>activeTime := 80, optimalTime := Fin (40 * (2 - 66 / 100))\<rparr>)) \<and>
   map_flow (\<lambda>s. s\<lparr>optimalTime := PosInf\<rparr>)
     (process (flat_optimizer no_options) (Fin 1090) 1060 1060
        (initial_search (flat_optimizer no_options) (ArrayP [9, 1]) 1000
           \<lparr>activeTime := 40, optimalTime := Fin 0\<rparr>))
     = Continue (initial_search (flat_optimizer no_options) (ArrayP [9]) 1000
         \<lparr>activeTime := 40, popped := [1], equivalents := [1], bestTime := 40,
          improvements := [1], optimalTime := PosInf, representativeBest := Some 1\<rparr>)"
proof -
  let ?opt = "flat_optimizer no_options"
  let ?clock = "[1000, 1000, 1040, 1060, 1060, 1100] :: real list"
  let ?s = "initial_search ?opt (ArrayP [9, 1]) 1000\<lparr>activeTime := 40\<rparr>"
  have ratio: "optimalTimeRatio ?opt = Fin (66 / 100)"
    by (simp add: flat_fields)
  have pos: "(0 :: real) < 66 / 100"
    by simp
  note inst = adaptive_deadline[OF ratio pos]
  have e: "map_option (map_sum id (\<lambda>st. (equivalents st, popped st, improvements st, bestTime st,
       activeTime st)))
     (run_search sort_select ?opt [9, 1, 2] ?clock) = Some (Inr ([2], [2], [2], 40, 80))"
    by code_simp
  obtain st where run: "run_search sort_select ?opt [9, 1, 2] ?clock = Some (Inr st)"
    and tup: "(equivalents st, popped st, improvements st, bestTime st, activeTime st)
      = ([2], [2], [2], 40, 80)"
    by (rule resolved_state[OF e])
  have st: "equivalents st = [2]" "popped st = [2]" "improvements st = [2]" "bestTime st = 40"
    "activeTime st = 80"
    using tup by simp_all
  have "deadline_set ?opt (66 / 100) st \<or>
      improvements st \<noteq> [] \<and> proven_optimal ?opt (last (improvements st))"
    using inst[where sel = sort_select and init = "[9, 1, 2]" and clock = ?clock
        and res = st, THEN conjunct2, THEN conjunct1] run
    by simp
  then have "optimalTime st = Fin (40 * (2 - 66 / 100))"
    using st by (simp add: deadline_set_def proven_optimal_def flat_fields)
  then have a: "map_option (map_sum id (\<lambda>st. (equivalents st, popped st, improvements st,
       bestTime st, activeTime st, optimalTime st)))
     (run_search sort_select ?opt [9, 1, 2] ?clock)
     = Some (Inr ([2], [2], [2], 40, 80, Fin (40 * (2 - 66 / 100))))"
    using run st by simp
  have b: "score ?opt ?s 2
     = Continue (initial_search ?opt (ArrayP [9, 1]) 1000
         \<lparr>activeTime := 40, equivalents := [2], bestTime := 40, improvements := [2],
          optimalTime := Fin (40 * (2 - 66 / 100)), representativeBest := Some 2\<rparr>)"
    using inst[where s = ?s and b = 9 and c = 2, THEN conjunct1]
    by (simp add: initial_search_def flat_fields numeric_difference_def proven_optimal_def)
  have c: "iter ?opt 1060 (Fin 1090) (?s\<lparr>optimalTime := Fin (40 * (2 - 66 / 100))\<rparr>) [1100]
     = Some (Inr (initial_search ?opt (ArrayP [9, 1]) 1000
         \<lparr>activeTime := 80, optimalTime := Fin (40 * (2 - 66 / 100))\<rparr>))"
    using inst[where st = "?s\<lparr>optimalTime := Fin (40 * (2 - 66 / 100))\<rparr>"
        and ?st1.0 = "?s\<lparr>optimalTime := Fin (40 * (2 - 66 / 100))\<rparr>"
        and now = 1100 and turn_limit = "Fin 1090" and start = 1060 and rest = "[]",
        THEN conjunct2, THEN conjunct2, THEN conjunct1]
    by (simp add: initial_search_def expand_top_def js_gt_def js_ge_def flat_fields)
  have d0: "process ?opt (Fin 1090) 1060 1060 ?s
     = Continue (initial_search ?opt (ArrayP [9]) 1000
         \<lparr>activeTime := 40, popped := [1], equivalents := [1], bestTime := 40,
          improvements := [1], optimalTime := Fin (40 * (2 - 66 / 100)),
          representativeBest := Some 1\<rparr>)"
    by (simp add: process_def take_candidate_def score_def initial_search_def js_gt_def
        js_sub_def flat_fields numeric_difference_def proven_optimal_def Let_def)
  have d: "map_flow (\<lambda>s. s\<lparr>optimalTime := PosInf\<rparr>)
     (process ?opt (Fin 1090) 1060 1060 (?s\<lparr>optimalTime := Fin 0\<rparr>))
     = Continue (initial_search ?opt (ArrayP [9]) 1000
         \<lparr>activeTime := 40, popped := [1], equivalents := [1], bestTime := 40,
          improvements := [1], optimalTime := PosInf, representativeBest := Some 1\<rparr>)"
    using inst[where ?st1.0 = ?s and now = 1060 and turn_limit = "Fin 1090" and start = 1060
        and d = "Fin 0" and d' = PosInf,
        THEN conjunct2, THEN conjunct2, THEN conjunct2, THEN mp, THEN conjunct1]
    unfolding d0 by (simp add: js_gt_def initial_search_def)
  have f: "js_ge (Fin 80) (Fin (40 * (2 - 66 / 100)))"
    by (simp add: js_ge_def)
  show ?thesis
    using ratio a f b c d by simp
qed

text \<open>
  Claim C9 as stated (in every step after an improvement the search terminates as soon as
  the active time reaches the deadline) fails at ratio 1. Every state is complete, the
  initial states are 9, 1 and 2, and the first turn overruns with an active time of 40.
  In the second turn the candidate 2 improves on the seed 9 and sets the deadline to
  \<open>40 * (2 - 1) = 40\<close>, which the active time has reached. The search goes on: it takes 1,
  a second improvement, and 9, and resolves with 1, not with the best set of the moment
  the deadline was reached.
\<close>

theorem adaptive_deadline_counterexample:
  "optimalTimeRatio (flat_optimizer (no_options\<lparr>opt_optimalTimeRatio := Some (Fin 1)\<rparr>)) = Fin 1 \<and>
   map_option (map_sum id (\<lambda>st. (equivalents st, popped st, improvements st, bestTime st,
       activeTime st, optimalTime st)))
     (run_search sort_select (flat_optimizer (no_options\<lparr>opt_optimalTimeRatio := Some (Fin 1)\<rparr>))
        [9, 1, 2] [1000, 1000, 1040, 1060, 1060, 1060, 1060])
     = Some (Inr ([1], [2, 1, 9], [2, 1], 40, 40, Fin 40)) \<and>
   js_ge (Fin 40) (Fin 40)"
  by code_simp

subsection \<open>The defaults of the constructor\<close>

lemma utilization_of_cases:
  "utilization_of None = Fin (1 / 2)"
  "\<not> truthy v \<Longrightarrow> utilization_of (Some v) = Fin (1 / 2)"
  "x \<noteq> 0 \<Longrightarrow> utilization_of (Some (Fin x)) = Fin (min \<bar>x\<bar> 1)"
  "utilization_of (Some PosInf) = Fin 1"
  "utilization_of (Some NegInf) = Fin 1"
  by (auto simp: utilization_of_def js_or_def Math_min_def)

lemma utilization_of_range: "\<exists>u. utilization_of x = Fin u \<and> 0 < u \<and> u \<le> 1"
proof (cases x)
  case None
  then show ?thesis by (intro exI[of _ "1 / 2"]) (simp add: utilization_of_cases)
next
  case (Some v)
  have half: "\<exists>u :: real. u * 2 = 1 \<and> 0 < u \<and> u \<le> 1"
    by (intro exI[of _ "1 / 2"]) simp
  show ?thesis
    using Some half by (cases v) (auto simp: utilization_of_def js_or_def Math_min_def)
qed

text \<open>
  Claim C8, as amended. The constructor substitutes, for every options object:
  a beam limit that is absent, \<open>NaN\<close> or not above 0 becomes \<open>Infinity\<close>, any other is kept;
  a turn time that is absent, \<open>NaN\<close>, not above 0 or infinite becomes 30, any other is kept;
  a total time that is absent, \<open>NaN\<close> or not above 0 becomes \<open>Infinity\<close>, any other is kept;
  an optimal-time ratio outside the interval from 0 to 1 (or absent, or \<open>NaN\<close>) becomes 0.66,
  any other is kept. The utilization that divides the turn time is a number \<open>u\<close> with
  \<open>0 < u \<le> 1\<close>: it is 0.5 when the option is absent, 0 or \<open>NaN\<close>, and otherwise the
  absolute value of the option, capped at 1 (a negative value is mirrored, not raised to 0).
  The constructor is a total function: no options object makes it fail.
\<close>

theorem constructor_defaults:
  "let opt = Optimizer_constructor ext chk ev options;
       bl = Number (opt_beamLimit options);
       tt = Number (opt_turnTime options);
       tot = Number (opt_totalTime options);
       ratio = Number (opt_optimalTimeRatio options)
   in (beamLimit opt = (if js_gt bl (Fin 0) then bl else PosInf)) \<and>
      (js_le bl (Fin 0) \<or> bl = NaN \<longrightarrow> beamLimit opt = PosInf) \<and>
      (turnTime opt = (if js_gt tt (Fin 0) \<and> isFinite tt then tt else Fin 30)) \<and>
      (js_le tt (Fin 0) \<or> \<not> isFinite tt \<longrightarrow> turnTime opt = Fin 30) \<and>
      (totalTime opt = (if js_gt tot (Fin 0) then tot else PosInf)) \<and>
      (js_le tot (Fin 0) \<or> tot = NaN \<longrightarrow> totalTime opt = PosInf) \<and>
      (optimalTimeRatio opt =
         (if js_ge ratio (Fin 0) \<and> js_le ratio (Fin 1) then ratio else Fin (66 / 100))) \<and>
      (js_lt ratio (Fin 0) \<or> js_gt ratio (Fin 1) \<or> ratio = NaN
         \<longrightarrow> optimalTimeRatio opt = Fin (66 / 100)) \<and>
      (\<exists>u. 0 < u \<and> u \<le> 1 \<and> utilization_of (opt_utilization options) = Fin u \<and>
           turnInterval opt = js_div (turnTime opt) (Fin u) \<and>
           (opt_utilization options = None \<or> opt_utilization options = Some (Fin 0) \<or>
            opt_utilization options = Some NaN \<longrightarrow> u = 1 / 2) \<and>
           (\<forall>x. opt_utilization options = Some (Fin x) \<longrightarrow> x \<noteq> 0 \<longrightarrow> u = min \<bar>x\<bar> 1) \<and>
           (opt_utilization options = Some PosInf \<or> opt_utilization options = Some NegInf
              \<longrightarrow> u = 1))"
proof -
  define opt where "opt = Optimizer_constructor ext chk ev options"
  define bl where "bl = Number (opt_beamLimit options)"
  define tt where "tt = Number (opt_turnTime options)"
  define tot where "tot = Number (opt_totalTime options)"
  define ratio where "ratio = Number (opt_optimalTimeRatio options)"
  have f: "beamLimit opt = (if js_gt bl (Fin 0) then bl else PosInf)"
    "turnTime opt = (if js_gt tt (Fin 0) \<and> isFinite tt then tt else Fin 30)"
    "totalTime opt = (if js_gt tot (Fin 0) then tot else PosInf)"
    "optimalTimeRatio opt =
       (if js_ge ratio (Fin 0) \<and> js_le ratio (Fin 1) then ratio else Fin (66 / 100))"
    "turnInterval opt = js_div (turnTime opt) (utilization_of (opt_utilization options))"
    by (simp_all add: opt_def bl_def tt_def tot_def ratio_def Optimizer_constructor_def Let_def)
  have b2: "js_le bl (Fin 0) \<or> bl = NaN \<longrightarrow> beamLimit opt = PosInf"
    by (cases bl) (auto simp: f js_le_def js_gt_def)
  have t2: "js_le tt (Fin 0) \<or> \<not> isFinite tt \<longrightarrow> turnTime opt = Fin 30"
    by (cases tt) (auto simp: f js_le_def js_gt_def)
  have o2: "js_le tot (Fin 0) \<or> tot = NaN \<longrightarrow> totalTime opt = PosInf"
    by (cases tot) (auto simp: f js_le_def js_gt_def)
  have r2: "js_lt ratio (Fin 0) \<or> js_gt ratio (Fin 1) \<or> ratio = NaN
      \<longrightarrow> optimalTimeRatio opt = Fin (66 / 100)"
    by (cases ratio) (auto simp: f js_le_def js_ge_def js_gt_def)
  obtain u where u: "utilization_of (opt_utilization options) = Fin u" "0 < u" "u \<le> 1"
    using utilization_of_range by blast
  have u1: "opt_utilization options = None \<or> opt_utilization options = Some (Fin 0) \<or>
            opt_utilization options = Some NaN \<longrightarrow> u = 1 / 2"
    using u(1) by (auto simp: utilization_of_cases)
  have u2: "\<forall>x. opt_utilization options = Some (Fin x) \<longrightarrow> x \<noteq> 0 \<longrightarrow> u = min \<bar>x\<bar> 1"
    using u(1) by (auto simp: utilization_of_cases)
  have u3: "opt_utilization options = Some PosInf \<or> opt_utilization options = Some NegInf
      \<longrightarrow> u = 1"
    using u(1) by (auto simp: utilization_of_cases)
  have "\<exists>u. 0 < u \<and> u \<le> 1 \<and> utilization_of (opt_utilization options) = Fin u \<and>
           turnInterval opt = js_div (turnTime opt) (Fin u) \<and>
           (opt_utilization options = None \<or> opt_utilization options = Some (Fin 0) \<or>
            opt_utilization options = Some NaN \<longrightarrow> u = 1 / 2) \<and>
           (\<forall>x. opt_utilization options = Some (Fin x) \<longrightarrow> x \<noteq> 0 \<longrightarrow> u = min \<bar>x\<bar> 1) \<and>
           (opt_utilization options = Some PosInf \<or> opt_utilization options = Some NegInf
              \<longrightarrow> u = 1)"
    using u u1 u2 u3 f(5) by (intro exI[of _ u]) simp
  then show ?thesis
    unfolding Let_def opt_def[symmetric] bl_def[symmetric] tt_def[symmetric] tot_def[symmetric]
      ratio_def[symmetric]
    using f(1-4) b2 t2 o2 r2 by (intro conjI) simp_all
qed

theorem constructor_defaults_witness:
  "beamLimit (Optimizer_constructor counter_extend counter_check numeric_difference stray_options)
     = PosInf \<and>
   turnTime (Optimizer_constructor counter_extend counter_check numeric_difference stray_options)
     = Fin 30 \<and>
   totalTime (Optimizer_constructor counter_extend counter_check numeric_difference stray_options)
     = PosInf \<and>
   optimalTimeRatio (Optimizer_constructor counter_extend counter_check numeric_difference stray_options)
     = Fin (66 / 100) \<and>
   turnInterval (Optimizer_constructor counter_extend counter_check numeric_difference stray_options)
     = Fin 100 \<and>
   turnInterval (Optimizer_constructor counter_extend counter_check numeric_difference no_options)
     = Fin 60 \<and>
   turnInterval (Optimizer_constructor counter_extend counter_check numeric_difference
       (no_options\<lparr>opt_utilization := Some NegInf\<rparr>))
     = Fin 30"
proof -
  have a: "Number (opt_beamLimit (stray_options :: int options)) = Fin (- 1)"
    "Number (opt_turnTime (stray_options :: int options)) = PosInf"
    "Number (opt_totalTime (stray_options :: int options)) = Fin 0"
    "Number (opt_optimalTimeRatio (stray_options :: int options)) = Fin 2"
    "opt_utilization (stray_options :: int options) = Some (Fin (- 3 / 10))"
    by (simp_all add: stray_options_def Number_def)
  have b: "Number (opt_turnTime (no_options :: int options)) = NaN"
    "opt_utilization (no_options :: int options) = None"
    by (simp_all add: no_options_def Number_def)
  have c: "Number (opt_turnTime ((no_options :: int options)\<lparr>opt_utilization := Some NegInf\<rparr>)) = NaN"
    "opt_utilization ((no_options :: int options)\<lparr>opt_utilization := Some NegInf\<rparr>) = Some NegInf"
    by (simp_all add: no_options_def Number_def)
  define A where
    "A = Optimizer_constructor counter_extend counter_check numeric_difference stray_options"
  define B where
    "B = Optimizer_constructor counter_extend counter_check numeric_difference no_options"
  define C where
    "C = Optimizer_constructor counter_extend counter_check numeric_difference
           (no_options\<lparr>opt_utilization := Some NegInf\<rparr>)"
  note iA = constructor_defaults[of counter_extend counter_check numeric_difference stray_options,
      unfolded Let_def a, folded A_def]
  note iB = constructor_defaults[of counter_extend counter_check numeric_difference no_options,
      unfolded Let_def b, folded B_def]
  note iC = constructor_defaults[of counter_extend counter_check numeric_difference
      "no_options\<lparr>opt_utilization := Some NegInf\<rparr>", unfolded Let_def c, folded C_def]
  have A1: "beamLimit A = PosInf"
    using iA[THEN conjunct2, THEN conjunct1] by (simp add: js_le_def)
  have A2: "turnTime A = Fin 30"
    using iA[THEN conjunct2, THEN conjunct2, THEN conjunct2, THEN conjunct1] by simp
  have A3: "totalTime A = PosInf"
    using iA[THEN conjunct2, THEN conjunct2, THEN conjunct2, THEN conjunct2, THEN conjunct2,
        THEN conjunct1]
    by (simp add: js_le_def)
  have A4: "optimalTimeRatio A = Fin (66 / 100)"
    using iA[THEN conjunct2, THEN conjunct2, THEN conjunct2, THEN conjunct2, THEN conjunct2,
        THEN conjunct2, THEN conjunct2, THEN conjunct1]
    by (simp add: js_gt_def)
  obtain u where u: "turnInterval A = js_div (turnTime A) (Fin u)"
      "\<forall>x. Some (Fin (- 3 / 10)) = Some (Fin x) \<longrightarrow> x \<noteq> 0 \<longrightarrow> u = min \<bar>x\<bar> 1"
    using iA[THEN conjunct2, THEN conjunct2, THEN conjunct2, THEN conjunct2, THEN conjunct2,
        THEN conjunct2, THEN conjunct2, THEN conjunct2]
    by blast
  have u3: "u = 3 / 10"
    using u(2) by simp
  have A5: "turnInterval A = Fin 100"
    unfolding u(1) A2 u3 by simp
  obtain v where v: "turnInterval B = js_div (turnTime B) (Fin v)"
      "None = None \<or> None = Some (Fin 0) \<or> None = Some NaN \<longrightarrow> v = 1 / 2"
    using iB[THEN conjunct2, THEN conjunct2, THEN conjunct2, THEN conjunct2, THEN conjunct2,
        THEN conjunct2, THEN conjunct2, THEN conjunct2]
    by blast
  have B2: "turnTime B = Fin 30"
    using iB[THEN conjunct2, THEN conjunct2, THEN conjunct2, THEN conjunct1] by simp
  have B5: "turnInterval B = Fin 60"
    using v B2 by simp
  obtain w where w: "turnInterval C = js_div (turnTime C) (Fin w)"
      "Some NegInf = Some PosInf \<or> Some NegInf = Some NegInf \<longrightarrow> w = 1"
    using iC[THEN conjunct2, THEN conjunct2, THEN conjunct2, THEN conjunct2, THEN conjunct2,
        THEN conjunct2, THEN conjunct2, THEN conjunct2]
    by blast
  have C2: "turnTime C = Fin 30"
    using iC[THEN conjunct2, THEN conjunct2, THEN conjunct2, THEN conjunct1] by simp
  have C5: "turnInterval C = Fin 30"
    using w C2 by simp
  show ?thesis
    using A1 A2 A3 A4 A5 B5 C5 unfolding A_def B_def C_def by simp
qed

text \<open>
  Claim C8 as stated (utilization is clamped into the interval from 0 to 1) fails for the
  utilization \<open>-0.3\<close>: the clamp is 0, the constructor uses 0.3 and sets the turn interval
  to \<open>30 / 0.3 = 100\<close>.
\<close>

theorem constructor_defaults_counterexample:
  "utilization_of (Some (Fin (- 3 / 10))) = Fin (3 / 10) \<and>
   clamp_unit (- 3 / 10) = 0 \<and>
   turnInterval (Optimizer_constructor counter_extend counter_check numeric_difference stray_options)
     = Fin 100"
  by (simp add: utilization_of_def js_or_def Math_min_def clamp_unit_def
      Optimizer_constructor_def stray_options_def Number_def js_gt_def Let_def)

end
